theory Spec2Isabelle
  imports
    Complex_Main
    "HOL-Library.Word"
    "HOL-Library.Finite_Map"
    "HOL-Library.List_Lexorder"
    "HOL-Library.Char_ord"
begin

section \<open>Atoms (include/opencog/atom.h, src/opencog/atomspace/atom.cc)\<close>

text \<open>
  \<^verbatim>\<open>enum class AtomType\<close>, in the order of the header.
\<close>

datatype AtomType =
    NODE
  | LINK
  | CONCEPT_NODE
  | PREDICATE_NODE
  | VARIABLE_NODE
  | EVALUATION_LINK
  | INHERITANCE_LINK
  | SIMILARITY_LINK
  | EXECUTION_LINK

text \<open>
  \<^verbatim>\<open>struct TruthValue\<close>: two doubles. No operation of the store reads or computes with
  them; the default constructor stores the constant 1.0 in both, written here as the
  real number 1.
\<close>

record TruthValue =
  strength :: real
  confidence :: real

definition TruthValue_default :: TruthValue where
  "TruthValue_default = \<lparr>strength = 1, confidence = 1\<rparr>"

text \<open>
  A \<^verbatim>\<open>std::shared_ptr<Atom>\<close> stored in a link's outgoing vector: the atom it points
  to, named by that atom's id, or \<open>None\<close> for a null pointer.
\<close>

type_synonym atom_ref = "64 word option"

text \<open>
  The dynamic class of an atom object. The store only ever constructs \<^verbatim>\<open>Node\<close> and
  \<^verbatim>\<open>Link\<close> objects (\<^verbatim>\<open>std::make_shared<Node>\<close>, \<^verbatim>\<open>std::make_shared<Link>\<close>); a link
  carries its outgoing vector.
\<close>

datatype AtomClass = Node | Link (outgoing: "atom_ref list")

text \<open>
  The data members of \<^verbatim>\<open>class Atom\<close> (\<^verbatim>\<open>type_\<close>, \<^verbatim>\<open>name_\<close>, \<^verbatim>\<open>id_\<close>,
  \<^verbatim>\<open>truth_value_\<close>) and the dynamic class. \<^verbatim>\<open>id_\<close> is a \<^verbatim>\<open>uint64_t\<close>.
\<close>

record Atom =
  atom_type :: AtomType
  atom_name :: string
  atom_id :: "64 word"
  truth_value :: TruthValue
  atom_class :: AtomClass

text \<open>
  \<^verbatim>\<open>virtual bool IsNode()\<close> and \<^verbatim>\<open>virtual bool IsLink()\<close>: false in \<^verbatim>\<open>Atom\<close>,
  overridden to true in \<^verbatim>\<open>Node\<close> and \<^verbatim>\<open>Link\<close> respectively.
\<close>

definition IsNode :: "Atom \<Rightarrow> bool" where
  "IsNode a = (case atom_class a of Node \<Rightarrow> True | Link _ \<Rightarrow> False)"


text \<open>
  \<^verbatim>\<open>uint64_t Atom::next_id_ = 1;\<close> is a static member: one counter for the whole
  process, shared by all stores. Every function that constructs an atom takes the
  current value of the counter and returns the new one.

  \<^verbatim>\<open>Atom::Atom(type, name) : type_(type), name_(name), id_(next_id_++) {}\<close>
  The increment is on a \<^verbatim>\<open>uint64_t\<close>, so \<open>+\<close> on \<open>64 word\<close> wraps as the code does.
\<close>

definition next_id_initial :: "64 word" where
  "next_id_initial = 1"

definition Node_new :: "AtomType \<Rightarrow> string \<Rightarrow> 64 word \<Rightarrow> Atom \<times> 64 word" where
  "Node_new ty nm next_id =
     (\<lparr>atom_type = ty, atom_name = nm, atom_id = next_id,
       truth_value = TruthValue_default, atom_class = Node\<rparr>,
      next_id + 1)"

definition Link_new :: "AtomType \<Rightarrow> string \<Rightarrow> atom_ref list \<Rightarrow> 64 word \<Rightarrow> Atom \<times> 64 word" where
  "Link_new ty nm out next_id =
     (\<lparr>atom_type = ty, atom_name = nm, atom_id = next_id,
       truth_value = TruthValue_default, atom_class = Link out\<rparr>,
      next_id + 1)"

section \<open>The store (include/opencog/atomspace.h, src/opencog/atomspace/atomspace.cc)\<close>

text \<open>
  \<^verbatim>\<open>class AtomSpace\<close>: the tenant id and the three indices. The two
  \<^verbatim>\<open>std::unordered_map\<close>s are finite maps. The \<^verbatim>\<open>std::multimap<AtomType, ...>\<close> is used
  only through \<^verbatim>\<open>insert\<close>, \<^verbatim>\<open>equal_range\<close>, \<^verbatim>\<open>erase(iterator)\<close> and \<^verbatim>\<open>clear\<close>, so it is
  one bucket per key: the list of the entries with that key, in insertion order
  (\<^verbatim>\<open>insert\<close> puts a new entry after the entries of equal key).

  Every operation holds the store's mutex from its first statement to its return, so
  on its store each is a function from the state before to the state after. The
  process-wide counter is not guarded by that mutex; the last section on the store
  takes the steps of two threads apart.
\<close>

record AtomSpace =
  tenant_id :: string
  atoms_by_id :: "(64 word, Atom) fmap"
  atoms_by_name :: "(string, Atom) fmap"
  atoms_by_type :: "AtomType \<Rightarrow> Atom list"

definition AtomSpace_new :: "string \<Rightarrow> AtomSpace" where
  "AtomSpace_new tenant =
     \<lparr>tenant_id = tenant, atoms_by_id = fmempty, atoms_by_name = fmempty,
      atoms_by_type = (\<lambda>_. [])\<rparr>"

text \<open>
  The three insertions shared by \<^verbatim>\<open>AddNode\<close> and \<^verbatim>\<open>AddLink\<close>:
  \<^verbatim>\<open>atoms_by_id_[a->id()] = a; atoms_by_name_[name] = a; atoms_by_type_.insert({type, a});\<close>
\<close>

definition insert_atom :: "AtomType \<Rightarrow> string \<Rightarrow> Atom \<Rightarrow> AtomSpace \<Rightarrow> AtomSpace" where
  "insert_atom ty nm a s =
     s\<lparr>atoms_by_id := fmupd (atom_id a) a (atoms_by_id s),
       atoms_by_name := fmupd nm a (atoms_by_name s),
       atoms_by_type := (atoms_by_type s)(ty := atoms_by_type s ty @ [a])\<rparr>"

text \<open>
  \<^verbatim>\<open>AddNode\<close>: the result is the returned atom, the new value of the process-wide
  counter and the new store.
\<close>

definition AddNode :: "AtomType \<Rightarrow> string \<Rightarrow> 64 word \<Rightarrow> AtomSpace \<Rightarrow> Atom \<times> 64 word \<times> AtomSpace" where
  "AddNode ty nm next_id s =
     (case fmlookup (atoms_by_name s) nm of
        Some a \<Rightarrow>
          if IsNode a then (a, next_id, s)
          else (let (node, next_id') = Node_new ty nm next_id
                in (node, next_id', insert_atom ty nm node s))
      | None \<Rightarrow>
          (let (node, next_id') = Node_new ty nm next_id
           in (node, next_id', insert_atom ty nm node s)))"

definition AddLink ::
  "AtomType \<Rightarrow> string \<Rightarrow> atom_ref list \<Rightarrow> 64 word \<Rightarrow> AtomSpace \<Rightarrow> Atom \<times> 64 word \<times> AtomSpace" where
  "AddLink ty nm out next_id s =
     (let (link, next_id') = Link_new ty nm out next_id
      in (link, next_id', insert_atom ty nm link s))"

text \<open>The lookups return \<open>None\<close> where the code returns \<^verbatim>\<open>nullptr\<close>.\<close>

definition GetAtom :: "AtomSpace \<Rightarrow> 64 word \<Rightarrow> Atom option" where
  "GetAtom s i = fmlookup (atoms_by_id s) i"

definition GetAtomByName :: "AtomSpace \<Rightarrow> string \<Rightarrow> Atom option" where
  "GetAtomByName s nm = fmlookup (atoms_by_name s) nm"

definition GetAtomsByType :: "AtomSpace \<Rightarrow> AtomType \<Rightarrow> Atom list" where
  "GetAtomsByType s ty = atoms_by_type s ty"

text \<open>
  The loop of \<^verbatim>\<open>RemoveAtom\<close> over the bucket of the atom's type: it erases the first
  entry whose atom has the id and stops (\<^verbatim>\<open>break\<close>).
\<close>

fun erase_first_id :: "64 word \<Rightarrow> Atom list \<Rightarrow> Atom list" where
  "erase_first_id i [] = []"
| "erase_first_id i (a # as) = (if atom_id a = i then as else a # erase_first_id i as)"

definition RemoveAtom :: "64 word \<Rightarrow> AtomSpace \<Rightarrow> bool \<times> AtomSpace" where
  "RemoveAtom i s =
     (case fmlookup (atoms_by_id s) i of
        None \<Rightarrow> (False, s)
      | Some atom \<Rightarrow>
          (True,
           s\<lparr>atoms_by_name := fmdrop (atom_name atom) (atoms_by_name s),
             atoms_by_type := (atoms_by_type s)
               (atom_type atom := erase_first_id i (atoms_by_type s (atom_type atom))),
             atoms_by_id := fmdrop i (atoms_by_id s)\<rparr>))"

definition Clear :: "AtomSpace \<Rightarrow> AtomSpace" where
  "Clear s = s\<lparr>atoms_by_id := fmempty, atoms_by_name := fmempty, atoms_by_type := (\<lambda>_. [])\<rparr>"

definition Size :: "AtomSpace \<Rightarrow> nat" where
  "Size s = fcard (fmdom (atoms_by_id s))"

text \<open>
  ``Repeated calls'' of \<^verbatim>\<open>AddNode\<close> with one name: one call per requested type, each
  on the counter and the store the call before left; the atoms returned, in call order.
\<close>

fun AddNode_repeat ::
  "AtomType list \<Rightarrow> string \<Rightarrow> 64 word \<Rightarrow> AtomSpace \<Rightarrow> Atom list \<times> 64 word \<times> AtomSpace" where
  "AddNode_repeat [] nm next_id s = ([], next_id, s)"
| "AddNode_repeat (ty # tys) nm next_id s =
     (case AddNode ty nm next_id s of
        (a, next_id', s') \<Rightarrow>
          (case AddNode_repeat tys nm next_id' s' of
             (as, next_id'', s'') \<Rightarrow> (a # as, next_id'', s'')))"

subsection \<open>The invariant of a store\<close>

text \<open>
  What the indices of a store satisfy in every state the operations reach from an
  empty store, as long as the process-wide counter has not wrapped: an entry of the
  by-id index sits under its own id, that id is below the counter, and the atom is in
  the bucket of its type; an entry of the by-name index sits under its own name and
  its atom is in the by-id index.
\<close>

definition store_inv :: "64 word \<Rightarrow> AtomSpace \<Rightarrow> bool" where
  "store_inv next_id s \<longleftrightarrow>
     fmpred (\<lambda>i a. atom_id a = i \<and> i < next_id \<and> a \<in> set (atoms_by_type s (atom_type a)))
       (atoms_by_id s)
   \<and> fmpred (\<lambda>nm a. atom_name a = nm \<and> fmlookup (atoms_by_id s) (atom_id a) = Some a)
       (atoms_by_name s)"

subsection \<open>Example stores\<close>

text \<open>
  The scenario of the specification: \<^verbatim>\<open>AddNode(CONCEPT_NODE, "X")\<close> on an empty store
  of a fresh process, then \<^verbatim>\<open>AddLink(INHERITANCE_LINK, "X", {})\<close>.
\<close>

definition node_X :: Atom where
  "node_X = \<lparr>atom_type = CONCEPT_NODE, atom_name = ''X'', atom_id = 1,
             truth_value = TruthValue_default, atom_class = Node\<rparr>"

definition link_X :: Atom where
  "link_X = \<lparr>atom_type = INHERITANCE_LINK, atom_name = ''X'', atom_id = 2,
             truth_value = TruthValue_default, atom_class = Link []\<rparr>"

definition store_node_X :: AtomSpace where
  "store_node_X = snd (snd (AddNode CONCEPT_NODE ''X'' next_id_initial (AtomSpace_new ''tenant1'')))"

definition store_link_X :: AtomSpace where
  "store_link_X = snd (snd (AddLink INHERITANCE_LINK ''X'' [] 2 store_node_X))"

section \<open>The process: one counter, many stores\<close>

text \<open>
  \<^verbatim>\<open>class AtomSpaceManager\<close> maps a tenant to its store and creates the store on the
  first reference.
\<close>

definition GetOrCreateAtomSpace ::
  "string \<Rightarrow> (string, AtomSpace) fmap \<Rightarrow> AtomSpace \<times> (string, AtomSpace) fmap" where
  "GetOrCreateAtomSpace tenant m =
     (case fmlookup m tenant of
        Some s \<Rightarrow> (s, m)
      | None \<Rightarrow> (AtomSpace_new tenant, fmupd tenant (AtomSpace_new tenant) m))"

text \<open>
  The state of a process as far as atoms go: the static counter \<^verbatim>\<open>Atom::next_id_\<close> and
  the stores of the manager.
\<close>

record Process =
  Atom_next_id :: "64 word"
  atomspaces :: "(string, AtomSpace) fmap"

definition Process_initial :: Process where
  "Process_initial = \<lparr>Atom_next_id = next_id_initial, atomspaces = fmempty\<rparr>"

text \<open>The mutating calls a client can make on a store.\<close>

datatype store_op =
    OpAddNode AtomType string
  | OpAddLink AtomType string "atom_ref list"
  | OpRemoveAtom "64 word"
  | OpClear

text \<open>
  One call on a store. The first component lists the id handed out by the call: the id
  of the returned atom when the call ran a constructor, which is when the counter
  moved (the only statement that writes the counter is the \<^verbatim>\<open>next_id_++\<close> of
  \<^verbatim>\<open>Atom::Atom\<close>); nothing when \<^verbatim>\<open>AddNode\<close> returned an atom already stored.
\<close>

fun store_call :: "store_op \<Rightarrow> 64 word \<Rightarrow> AtomSpace \<Rightarrow> 64 word list \<times> 64 word \<times> AtomSpace" where
  "store_call (OpAddNode ty nm) c s =
     (case AddNode ty nm c s of (a, c', s') \<Rightarrow> (if c' \<noteq> c then [atom_id a] else [], c', s'))"
| "store_call (OpAddLink ty nm out) c s =
     (case AddLink ty nm out c s of (a, c', s') \<Rightarrow> (if c' \<noteq> c then [atom_id a] else [], c', s'))"
| "store_call (OpRemoveAtom i) c s = ([], c, snd (RemoveAtom i s))"
| "store_call OpClear c s = ([], c, Clear s)"

text \<open>A call on the store of a tenant, and a sequence of such calls, one after another.\<close>

definition process_call :: "string \<times> store_op \<Rightarrow> Process \<Rightarrow> 64 word list \<times> Process" where
  "process_call call p =
     (case GetOrCreateAtomSpace (fst call) (atomspaces p) of
        (s, m) \<Rightarrow>
          (case store_call (snd call) (Atom_next_id p) s of
             (ids, c', s') \<Rightarrow>
               (ids, \<lparr>Atom_next_id = c', atomspaces = fmupd (fst call) s' m\<rparr>)))"

fun run_calls :: "(string \<times> store_op) list \<Rightarrow> Process \<Rightarrow> 64 word list \<times> Process" where
  "run_calls [] p = ([], p)"
| "run_calls (call # calls) p =
     (case process_call call p of
        (ids, p') \<Rightarrow>
          (case run_calls calls p' of
             (ids', p'') \<Rightarrow> (ids @ ids', p'')))"

text \<open>
  A sequence of calls that drives the counter to its last value and past it: create a
  node and clear the store, \<open>2 ^ 64 - 2\<close> times, then create three nodes.
\<close>

definition wrap_calls :: "(string \<times> store_op) list" where
  "wrap_calls =
     concat (replicate (2 ^ 64 - 2) [(''t'', OpAddNode NODE ''x''), (''t'', OpClear)])
     @ [(''t'', OpAddNode NODE ''x''), (''t'', OpAddNode NODE ''y''), (''t'', OpAddNode NODE ''z'')]"

text \<open>
  A short sequence on two tenants: a node, the same node again (returned, not created),
  a link of the same name, a removal, a clear, and a node in another store.
\<close>

definition example_calls :: "(string \<times> store_op) list" where
  "example_calls =
     [(''tenant1'', OpAddNode CONCEPT_NODE ''X''),
      (''tenant1'', OpAddNode PREDICATE_NODE ''X''),
      (''tenant1'', OpAddLink INHERITANCE_LINK ''X'' [Some 1]),
      (''tenant1'', OpRemoveAtom 1),
      (''tenant1'', OpClear),
      (''tenant2'', OpAddNode CONCEPT_NODE ''X'')]"

section \<open>Threads in different stores\<close>

text \<open>
  Each store has its own mutex, and \<^verbatim>\<open>Atom::next_id_\<close> is a plain \<^verbatim>\<open>static uint64_t\<close>
  with no lock and no atomic of its own. A thread inside \<^verbatim>\<open>AddNode\<close> holds the mutex
  of its store only, so the load and the store of \<^verbatim>\<open>next_id_++\<close> in threads that work on
  different stores can interleave.

  Where a thread is in its call of \<^verbatim>\<open>AddNode\<close>: before it, between the load and the
  store of \<^verbatim>\<open>next_id_++\<close> (with the value loaded), or returned (with the atom).
\<close>

datatype call_pc = AtCall | AtIncrement "64 word" | Returned Atom

record Thread =
  thread_tenant :: string
  thread_type :: AtomType
  thread_name :: string
  thread_pc :: call_pc

record Concurrent =
  shared_next_id :: "64 word"
  shared_atomspaces :: "(string, AtomSpace) fmap"
  threads :: "Thread list"

text \<open>A thread holds the mutex of its store while it is inside the call.\<close>

definition holds_mutex :: "string \<Rightarrow> Thread \<Rightarrow> bool" where
  "holds_mutex tenant t =
     (thread_tenant t = tenant
      \<and> (case thread_pc t of AtIncrement _ \<Rightarrow> True | _ \<Rightarrow> False))"

text \<open>
  One step of the thread \<open>i\<close>. From \<open>AtCall\<close> it takes the mutex of its store (it does not
  move while another thread holds it), looks the name up and returns the node found or
  loads the counter. From \<open>AtIncrement\<close> it stores the loaded value plus one, finishes the
  node with the loaded value as its id, inserts it into its store, releases the mutex
  and returns it.
\<close>

definition thread_step :: "nat \<Rightarrow> Concurrent \<Rightarrow> Concurrent" where
  "thread_step i c =
     (if length (threads c) \<le> i then c
      else
        (let t = threads c ! i
         in case thread_pc t of
              Returned _ \<Rightarrow> c
            | AtCall \<Rightarrow>
                if list_ex (holds_mutex (thread_tenant t)) (threads c) then c
                else
                  (case GetOrCreateAtomSpace (thread_tenant t) (shared_atomspaces c) of
                     (s, m) \<Rightarrow>
                       (case fmlookup (atoms_by_name s) (thread_name t) of
                          Some a \<Rightarrow>
                            if IsNode a
                            then c\<lparr>shared_atomspaces := m,
                                   threads := (threads c)[i := t\<lparr>thread_pc := Returned a\<rparr>]\<rparr>
                            else c\<lparr>shared_atomspaces := m,
                                   threads := (threads c)
                                     [i := t\<lparr>thread_pc := AtIncrement (shared_next_id c)\<rparr>]\<rparr>
                        | None \<Rightarrow>
                            c\<lparr>shared_atomspaces := m,
                              threads := (threads c)
                                [i := t\<lparr>thread_pc := AtIncrement (shared_next_id c)\<rparr>]\<rparr>))
            | AtIncrement loaded \<Rightarrow>
                (case Node_new (thread_type t) (thread_name t) loaded of
                   (node, stored) \<Rightarrow>
                     (case GetOrCreateAtomSpace (thread_tenant t) (shared_atomspaces c) of
                        (s, m) \<Rightarrow>
                          c\<lparr>shared_next_id := stored,
                            shared_atomspaces :=
                              fmupd (thread_tenant t)
                                (insert_atom (thread_type t) (thread_name t) node s) m,
                            threads := (threads c)[i := t\<lparr>thread_pc := Returned node\<rparr>]\<rparr>))))"

text \<open>A schedule names the thread that moves next.\<close>

definition run_schedule :: "nat list \<Rightarrow> Concurrent \<Rightarrow> Concurrent" where
  "run_schedule sched c = fold thread_step sched c"

text \<open>
  A fresh process with two threads, each about to add a node to the store of its own
  tenant.
\<close>

definition two_threads :: Concurrent where
  "two_threads =
     \<lparr>shared_next_id = next_id_initial, shared_atomspaces = fmempty,
      threads =
        [\<lparr>thread_tenant = ''tenant1'', thread_type = CONCEPT_NODE, thread_name = ''X'',
          thread_pc = AtCall\<rparr>,
         \<lparr>thread_tenant = ''tenant2'', thread_type = CONCEPT_NODE, thread_name = ''Y'',
          thread_pc = AtCall\<rparr>]\<rparr>"

section \<open>Agents (include/opencog/agent.h, src/opencog/agents/agent.cc)\<close>

datatype AgentState = IDLE | RUNNING | PAUSED | COMPLETED | FAILED

text \<open>\<^verbatim>\<open>struct AgentMessage\<close>; the member \<^verbatim>\<open>type\<close> is \<open>message_type\<close> here.\<close>

record AgentMessage =
  from_agent_id :: string
  to_agent_id :: string
  message_type :: string
  payload :: string
  timestamp :: "64 word"

text \<open>
  The data members of \<^verbatim>\<open>class Agent\<close>: \<^verbatim>\<open>agent_id_\<close>, \<^verbatim>\<open>tenant_id_\<close>, \<^verbatim>\<open>state_\<close> and
  \<^verbatim>\<open>orchestrator_\<close> (the address of the orchestrator the agent is bound to, \<open>None\<close> for
  \<^verbatim>\<open>nullptr\<close>), and \<open>members\<close>, the data a subclass adds. The member \<^verbatim>\<open>atomspace_\<close> is
  the store of \<^verbatim>\<open>tenant_id_\<close> in the manager and is not repeated.
\<close>

record 'u Agent =
  agent_id :: string
  agent_tenant_id :: string
  agent_state :: AgentState
  orchestrator :: "nat option"
  members :: 'u

text \<open>
  A call of \<^verbatim>\<open>SendMessage(to, type, payload)\<close> as a virtual method issues it: the three
  arguments and the reading of the system clock that the call takes.
\<close>

type_synonym send = "string \<times> string \<times> string \<times> 64 word"

text \<open>
  The virtual methods of an agent, as its class defines them. A method reads the
  object, replaces the data of the subclass and may call \<^verbatim>\<open>SendMessage\<close>. The members
  of the base class are written by the code of the repository only: \<^verbatim>\<open>state_\<close> by
  \<^verbatim>\<open>Agent::Initialize\<close>, \<^verbatim>\<open>Agent::Shutdown\<close> and the worker loop, \<^verbatim>\<open>orchestrator_\<close> by
  \<^verbatim>\<open>RegisterAgent\<close>. The two lifecycle methods, whose versions in the base class write
  \<^verbatim>\<open>state_\<close> and which an override may or may not call, give the state they leave.
  \<^item> \<open>Initialize\<close>: the result, the state left, the new subclass data, the messages sent;
  \<^item> \<open>Execute\<close>: whether it raised, the new subclass data, the messages sent before it
    returned or raised;
  \<^item> \<open>Shutdown\<close>: the state left, the new subclass data, the messages sent;
  \<^item> \<open>OnMessage\<close>: the new subclass data, the messages sent.
\<close>

record 'u AgentClass =
  Initialize :: "'u Agent \<Rightarrow> bool \<times> AgentState \<times> 'u \<times> send list"
  Execute :: "'u Agent \<Rightarrow> bool \<times> 'u \<times> send list"
  Shutdown :: "'u Agent \<Rightarrow> AgentState \<times> 'u \<times> send list"
  OnMessage :: "'u Agent \<Rightarrow> AgentMessage \<Rightarrow> 'u \<times> send list"

text \<open>An agent object: its data members and its class. \<open>None\<close> is a null pointer.\<close>

type_synonym 'u agent_obj = "'u Agent \<times> 'u AgentClass"

text \<open>
  The constructor, and the methods of the base class:
  \<^verbatim>\<open>bool Agent::Initialize() { state_ = AgentState::IDLE; return true; }\<close>
  \<^verbatim>\<open>void Agent::Shutdown() { state_ = AgentState::COMPLETED; }\<close>
  \<^verbatim>\<open>void Agent::OnMessage(const AgentMessage&) {}\<close>
\<close>

definition Agent_new :: "string \<Rightarrow> string \<Rightarrow> 'u \<Rightarrow> 'u Agent" where
  "Agent_new aid tenant u =
     \<lparr>agent_id = aid, agent_tenant_id = tenant, agent_state = IDLE, orchestrator = None,
      members = u\<rparr>"

definition Agent_Initialize :: "'u Agent \<Rightarrow> bool \<times> AgentState \<times> 'u \<times> send list" where
  "Agent_Initialize a = (True, IDLE, members a, [])"

definition Agent_Shutdown :: "'u Agent \<Rightarrow> AgentState \<times> 'u \<times> send list" where
  "Agent_Shutdown a = (COMPLETED, members a, [])"

definition Agent_OnMessage :: "'u Agent \<Rightarrow> AgentMessage \<Rightarrow> 'u \<times> send list" where
  "Agent_OnMessage a m = (members a, [])"

section \<open>The orchestrator (agent-orchestrator.h, agent-orchestrator.cc)\<close>

text \<open>
  \<^verbatim>\<open>class AgentOrchestrator\<close>: \<open>self\<close> is the address of the object (what \<^verbatim>\<open>this\<close> is in
  \<^verbatim>\<open>RegisterAgent\<close>). The registry is a \<^verbatim>\<open>std::map\<close> keyed by strings: a finite map,
  iterated in ascending order of its keys. The two queues are lists, the front first.
\<close>

record 'u AgentOrchestrator =
  self :: nat
  running :: bool
  agents :: "(string, 'u agent_obj) fmap"
  message_queue :: "AgentMessage list"
  scheduled_agents :: "string list"

definition AgentOrchestrator_new :: "nat \<Rightarrow> 'u AgentOrchestrator" where
  "AgentOrchestrator_new addr =
     \<lparr>self = addr, running = False, agents = fmempty, message_queue = [],
      scheduled_agents = []\<rparr>"

definition RouteMessage :: "AgentMessage \<Rightarrow> 'u AgentOrchestrator \<Rightarrow> 'u AgentOrchestrator" where
  "RouteMessage m orch = orch\<lparr>message_queue := message_queue orch @ [m]\<rparr>"

text \<open>
  \<^verbatim>\<open>Agent::SendMessage\<close>: nothing when the agent is unbound; otherwise the message goes
  to the queue of the orchestrator the agent is bound to, which changes this
  orchestrator when it is the one.
\<close>

definition SendMessage :: "'u Agent \<Rightarrow> send \<Rightarrow> 'u AgentOrchestrator \<Rightarrow> 'u AgentOrchestrator" where
  "SendMessage a sd orch =
     (case sd of (to, ty, pl, now) \<Rightarrow>
        if orchestrator a = Some (self orch)
        then RouteMessage
               \<lparr>from_agent_id = agent_id a, to_agent_id = to, message_type = ty,
                payload = pl, timestamp = now\<rparr> orch
        else orch)"

definition RegisterAgent ::
  "'u agent_obj option \<Rightarrow> 'u AgentOrchestrator \<Rightarrow> bool \<times> 'u AgentOrchestrator" where
  "RegisterAgent agent orch =
     (case agent of
        None \<Rightarrow> (False, orch)
      | Some (a, cls) \<Rightarrow>
          if fmlookup (agents orch) (agent_id a) \<noteq> None then (False, orch)
          else
            (let a1 = a\<lparr>orchestrator := Some (self orch)\<rparr>;
                 (ok, st, u, sends) = Initialize cls a1;
                 a2 = a1\<lparr>agent_state := st, members := u\<rparr>
             in (ok, fold (SendMessage a1) sends
                       (orch\<lparr>agents := fmupd (agent_id a) (a2, cls) (agents orch)\<rparr>))))"

definition UnregisterAgent :: "string \<Rightarrow> 'u AgentOrchestrator \<Rightarrow> bool \<times> 'u AgentOrchestrator" where
  "UnregisterAgent aid orch =
     (case fmlookup (agents orch) aid of
        None \<Rightarrow> (False, orch)
      | Some (a, cls) \<Rightarrow>
          (let (st, u, sends) = Shutdown cls a
           in (True, fold (SendMessage a) sends (orch\<lparr>agents := fmdrop aid (agents orch)\<rparr>))))"

definition GetAgent :: "'u AgentOrchestrator \<Rightarrow> string \<Rightarrow> 'u agent_obj option" where
  "GetAgent orch aid = fmlookup (agents orch) aid"

text \<open>
  \<^verbatim>\<open>Start\<close> creates the worker thread, \<^verbatim>\<open>Stop\<close> clears the flag and joins it. The thread
  runs \<^verbatim>\<open>OrchestratorLoop\<close>; its iterations are steps of their own below.
\<close>

definition Start :: "'u AgentOrchestrator \<Rightarrow> 'u AgentOrchestrator" where
  "Start orch = (if running orch then orch else orch\<lparr>running := True\<rparr>)"

definition Stop :: "'u AgentOrchestrator \<Rightarrow> 'u AgentOrchestrator" where
  "Stop orch = (if \<not> running orch then orch else orch\<lparr>running := False\<rparr>)"

text \<open>
  \<^verbatim>\<open>BroadcastMessage\<close>: the loop over the registry, in the order of the keys. \<open>now k\<close> is the
  reading of the system clock taken when the message for the key \<open>k\<close> is built.
\<close>

definition BroadcastMessage ::
  "string \<Rightarrow> string \<Rightarrow> string \<Rightarrow> (string \<Rightarrow> 64 word) \<Rightarrow> 'u AgentOrchestrator \<Rightarrow> 'u AgentOrchestrator" where
  "BroadcastMessage sender ty pl now orch =
     fold (\<lambda>k acc.
             if k \<noteq> sender
             then RouteMessage
                    \<lparr>from_agent_id = sender, to_agent_id = k, message_type = ty,
                     payload = pl, timestamp = now k\<rparr> acc
             else acc)
          (sorted_list_of_fset (fmdom (agents orch))) orch"

definition ScheduleAgent :: "string \<Rightarrow> 'u AgentOrchestrator \<Rightarrow> 'u AgentOrchestrator" where
  "ScheduleAgent aid orch = orch\<lparr>scheduled_agents := scheduled_agents orch @ [aid]\<rparr>"

text \<open>
  \<^verbatim>\<open>ProcessMessageQueue\<close>: the queue is copied out and emptied, then each message is
  handed to \<^verbatim>\<open>OnMessage\<close> of the agent registered under its target, if there is one.
\<close>

definition deliver :: "AgentMessage \<Rightarrow> 'u AgentOrchestrator \<Rightarrow> 'u AgentOrchestrator" where
  "deliver m orch =
     (case GetAgent orch (to_agent_id m) of
        None \<Rightarrow> orch
      | Some (a, cls) \<Rightarrow>
          (let (u, sends) = OnMessage cls a m
           in fold (SendMessage a) sends
                (orch\<lparr>agents := fmupd (to_agent_id m) (a\<lparr>members := u\<rparr>, cls) (agents orch)\<rparr>)))"

definition ProcessMessageQueue :: "'u AgentOrchestrator \<Rightarrow> 'u AgentOrchestrator" where
  "ProcessMessageQueue orch = fold deliver (message_queue orch) (orch\<lparr>message_queue := []\<rparr>)"

text \<open>
  The body of the \<^verbatim>\<open>while (running_)\<close> loop of \<^verbatim>\<open>OrchestratorLoop\<close>, once:
  \<^verbatim>\<open>ProcessMessageQueue()\<close>, then the block ``Execute scheduled agents'', then the sleep.
  The first component of the result is the id of the agent whose \<^verbatim>\<open>Execute\<close> the
  iteration called, if it called one. An exception of \<^verbatim>\<open>Execute\<close> is caught by
  \<^verbatim>\<open>catch (...)\<close>: the iteration goes on to its end either way.
\<close>

definition execute_scheduled :: "'u AgentOrchestrator \<Rightarrow> string option \<times> 'u AgentOrchestrator" where
  "execute_scheduled o1 =
     (let (aid, o2) = (case scheduled_agents o1 of
                         [] \<Rightarrow> ([], o1)
                       | x # xs \<Rightarrow> (x, o1\<lparr>scheduled_agents := xs\<rparr>))
      in if aid \<noteq> [] then
           (case GetAgent o2 aid of
              None \<Rightarrow> (None, o2)
            | Some (a, cls) \<Rightarrow>
                if agent_state a = IDLE then
                  (let a1 = a\<lparr>agent_state := RUNNING\<rparr>;
                       (raised, u, sends) = Execute cls a1;
                       a2 = a1\<lparr>members := u,
                               agent_state := (if raised then FAILED else IDLE)\<rparr>
                   in (Some aid,
                       fold (SendMessage a1) sends
                         (o2\<lparr>agents := fmupd aid (a2, cls) (agents o2)\<rparr>)))
                else (None, o2))
         else (None, o2))"

definition OrchestratorLoop_body :: "'u AgentOrchestrator \<Rightarrow> string option \<times> 'u AgentOrchestrator" where
  "OrchestratorLoop_body orch = execute_scheduled (ProcessMessageQueue orch)"

text \<open>One test of the loop condition, and the body when it holds.\<close>

definition OrchestratorLoop_step :: "'u AgentOrchestrator \<Rightarrow> string option \<times> 'u AgentOrchestrator" where
  "OrchestratorLoop_step orch = (if running orch then OrchestratorLoop_body orch else (None, orch))"

subsection \<open>Runs\<close>

text \<open>
  What happens to an orchestrator, one thing after another: the calls of its clients and
  the iterations of its worker. \<^verbatim>\<open>UnregisterAgent\<close> is not among them: the runs are those
  in which the agents stay registered.
\<close>

datatype 'u event =
    Ev_RegisterAgent "'u agent_obj option"
  | Ev_ScheduleAgent string
  | Ev_RouteMessage AgentMessage
  | Ev_BroadcastMessage string string string "string \<Rightarrow> 64 word"
  | Ev_Start
  | Ev_Stop
  | Ev_Iteration

fun step :: "'u event \<Rightarrow> 'u AgentOrchestrator \<Rightarrow> string option \<times> 'u AgentOrchestrator" where
  "step (Ev_RegisterAgent agent) orch = (None, snd (RegisterAgent agent orch))"
| "step (Ev_ScheduleAgent aid) orch = (None, ScheduleAgent aid orch)"
| "step (Ev_RouteMessage m) orch = (None, RouteMessage m orch)"
| "step (Ev_BroadcastMessage sender ty pl now) orch = (None, BroadcastMessage sender ty pl now orch)"
| "step Ev_Start orch = (None, Start orch)"
| "step Ev_Stop orch = (None, Stop orch)"
| "step Ev_Iteration orch = OrchestratorLoop_step orch"

text \<open>A run: the ids of the agents dispatched, in order, and the state reached.\<close>

fun run :: "'u event list \<Rightarrow> 'u AgentOrchestrator \<Rightarrow> string list \<times> 'u AgentOrchestrator" where
  "run [] orch = ([], orch)"
| "run (e # es) orch =
     (case step e orch of
        (d, orch') \<Rightarrow>
          (case run es orch' of
             (ds, orch'') \<Rightarrow> ((case d of None \<Rightarrow> [] | Some k \<Rightarrow> [k]) @ ds, orch'')))"

text \<open>
  \<open>N\<close> attempts to register, one after another: the results of the calls, in order.
\<close>

fun register_all :: "'u agent_obj list \<Rightarrow> 'u AgentOrchestrator \<Rightarrow> bool list \<times> 'u AgentOrchestrator" where
  "register_all [] orch = ([], orch)"
| "register_all (agent # rest) orch =
     (case RegisterAgent (Some agent) orch of
        (ok, orch') \<Rightarrow>
          (case register_all rest orch' of
             (oks, orch'') \<Rightarrow> (ok # oks, orch'')))"

subsection \<open>Example agents\<close>

text \<open>
  The \<^verbatim>\<open>TestAgent\<close> of the unit tests (it counts its executions and keeps the messages it
  receives), an agent whose \<^verbatim>\<open>Execute\<close> always throws, and an agent whose \<^verbatim>\<open>Initialize\<close>
  returns false without calling the base class.
\<close>

definition TestAgent :: "(nat \<times> AgentMessage list) AgentClass" where
  "TestAgent =
     \<lparr>Initialize = Agent_Initialize,
      Execute = (\<lambda>a. (False, (Suc (fst (members a)), snd (members a)), [])),
      Shutdown = Agent_Shutdown,
      OnMessage = (\<lambda>a m. ((fst (members a), snd (members a) @ [m]), []))\<rparr>"

definition ThrowingAgent :: "(nat \<times> AgentMessage list) AgentClass" where
  "ThrowingAgent = TestAgent\<lparr>Execute := (\<lambda>a. (True, members a, []))\<rparr>"

definition RefusingAgent :: "(nat \<times> AgentMessage list) AgentClass" where
  "RefusingAgent = TestAgent\<lparr>Initialize := (\<lambda>a. (False, agent_state a, members a, []))\<rparr>"

definition test_agent ::
  "string \<Rightarrow> (nat \<times> AgentMessage list) AgentClass \<Rightarrow> (nat \<times> AgentMessage list) agent_obj" where
  "test_agent aid cls = (Agent_new aid ''tenant1'' (0, []), cls)"

subsection \<open>What a client observes of a registered agent\<close>

text \<open>\<^verbatim>\<open>GetAgent(k)->state()\<close>, and the class of the object registered under \<open>k\<close>.\<close>

definition state_of :: "'u AgentOrchestrator \<Rightarrow> string \<Rightarrow> AgentState option" where
  "state_of orch k = map_option (\<lambda>obj. agent_state (fst obj)) (GetAgent orch k)"

definition class_of :: "'u AgentOrchestrator \<Rightarrow> string \<Rightarrow> 'u AgentClass option" where
  "class_of orch k = map_option snd (GetAgent orch k)"

subsection \<open>Example orchestrators\<close>

text \<open>
  Three agents registered, the third one throwing; then the orchestrator started and
  the third agent scheduled.
\<close>

definition three_agents :: "(nat \<times> AgentMessage list) AgentOrchestrator" where
  "three_agents =
     snd (register_all
            [test_agent ''agent1'' TestAgent, test_agent ''agent2'' TestAgent,
             test_agent ''agent3'' ThrowingAgent]
            (AgentOrchestrator_new 0))"

definition faulty_scheduled :: "(nat \<times> AgentMessage list) AgentOrchestrator" where
  "faulty_scheduled = ScheduleAgent ''agent3'' (Start three_agents)"

text \<open>
  A fresh orchestrator after an attempt to register an agent whose \<^verbatim>\<open>Initialize\<close>
  returns false.
\<close>

definition refused_registered :: "(nat \<times> AgentMessage list) AgentOrchestrator" where
  "refused_registered =
     snd (RegisterAgent (Some (test_agent ''agent1'' RefusingAgent)) (AgentOrchestrator_new 0))"

section \<open>Properties of the store\<close>

subsection \<open>Facts about the operations\<close>

lemma erase_first_id_keeps:
  "atom_id a \<noteq> i \<Longrightarrow> a \<in> set xs \<Longrightarrow> a \<in> set (erase_first_id i xs)"
  by (induction xs) auto

lemma insert_atom_fresh_inv:
  assumes inv: "store_inv c s" and wrap: "c + 1 \<noteq> 0"
    and a: "atom_id a = c" "atom_type a = ty" "atom_name a = nm"
  shows "store_inv (c + 1) (insert_atom ty nm a s)"
proof -
  have "unat (1 + c) = Suc (unat c)"
    using wrap by (intro unatSuc) (simp add: add.commute)
  then have lt: "c < c + 1"
    by (simp add: word_less_nat_alt add.commute)
  have fresh: "fmlookup (atoms_by_id s) c = None"
  proof (cases "fmlookup (atoms_by_id s) c")
    case (Some b)
    with inv have "c < c" by (auto simp: store_inv_def fmpred_iff)
    then show ?thesis by simp
  qed simp
  have ids: "fmpred (\<lambda>i b. atom_id b = i \<and> i < c + 1
                \<and> b \<in> set (atoms_by_type (insert_atom ty nm a s) (atom_type b)))
              (atoms_by_id (insert_atom ty nm a s))"
  proof (rule fmpredI)
    fix i b
    assume "fmlookup (atoms_by_id (insert_atom ty nm a s)) i = Some b"
    then consider "i = c" "b = a" | "i \<noteq> c" "fmlookup (atoms_by_id s) i = Some b"
      using a by (auto simp: insert_atom_def split: if_splits)
    then show "atom_id b = i \<and> i < c + 1
        \<and> b \<in> set (atoms_by_type (insert_atom ty nm a s) (atom_type b))"
    proof cases
      case 1
      with a lt show ?thesis by (simp add: insert_atom_def)
    next
      case 2
      with inv have "atom_id b = i" "i < c" "b \<in> set (atoms_by_type s (atom_type b))"
        by (auto simp: store_inv_def fmpred_iff)
      with lt show ?thesis by (auto simp: insert_atom_def)
    qed
  qed
  have names: "fmpred (\<lambda>n b. atom_name b = n
                  \<and> fmlookup (atoms_by_id (insert_atom ty nm a s)) (atom_id b) = Some b)
                (atoms_by_name (insert_atom ty nm a s))"
  proof (rule fmpredI)
    fix n b
    assume "fmlookup (atoms_by_name (insert_atom ty nm a s)) n = Some b"
    then consider "n = nm" "b = a" | "n \<noteq> nm" "fmlookup (atoms_by_name s) n = Some b"
      by (auto simp: insert_atom_def split: if_splits)
    then show "atom_name b = n
        \<and> fmlookup (atoms_by_id (insert_atom ty nm a s)) (atom_id b) = Some b"
    proof cases
      case 1
      with a show ?thesis by (simp add: insert_atom_def)
    next
      case 2
      with inv have b: "atom_name b = n" "fmlookup (atoms_by_id s) (atom_id b) = Some b"
        by (auto simp: store_inv_def fmpred_iff)
      with fresh have "atom_id b \<noteq> c" by auto
      with b a show ?thesis by (simp add: insert_atom_def)
    qed
  qed
  from ids names show ?thesis by (simp add: store_inv_def)
qed



lemma store_inv_Clear: "store_inv c (Clear s)"
  by (simp add: store_inv_def Clear_def)

lemma store_inv_AddLink:
  "store_inv c s \<Longrightarrow> c + 1 \<noteq> 0 \<Longrightarrow>
   store_inv (fst (snd (AddLink ty nm out c s))) (snd (snd (AddLink ty nm out c s)))"
  by (simp add: AddLink_def Link_new_def insert_atom_fresh_inv)

lemma store_inv_AddNode:
  assumes "store_inv c s" "c + 1 \<noteq> 0"
  shows "store_inv (fst (snd (AddNode ty nm c s))) (snd (snd (AddNode ty nm c s)))"
  using assms
  by (auto simp: AddNode_def Node_new_def insert_atom_fresh_inv split: option.splits)

lemma store_inv_RemoveAtom:
  assumes inv: "store_inv c s"
  shows "store_inv c (snd (RemoveAtom i s))"
proof (cases "fmlookup (atoms_by_id s) i")
  case None
  with inv show ?thesis by (simp add: RemoveAtom_def)
next
  case (Some r)
  let ?s' = "snd (RemoveAtom i s)"
  have by_id: "atoms_by_id ?s' = fmdrop i (atoms_by_id s)"
    and by_name: "atoms_by_name ?s' = fmdrop (atom_name r) (atoms_by_name s)"
    and by_type: "atoms_by_type ?s' = (atoms_by_type s)
        (atom_type r := erase_first_id i (atoms_by_type s (atom_type r)))"
    using Some by (simp_all add: RemoveAtom_def)
  have ids: "fmpred (\<lambda>j b. atom_id b = j \<and> j < c
                \<and> b \<in> set (atoms_by_type ?s' (atom_type b))) (atoms_by_id ?s')"
  proof (rule fmpredI)
    fix j b
    assume "fmlookup (atoms_by_id ?s') j = Some b"
    then have j: "j \<noteq> i" "fmlookup (atoms_by_id s) j = Some b"
      by (auto simp: by_id split: if_splits)
    with inv have b: "atom_id b = j" "j < c" "b \<in> set (atoms_by_type s (atom_type b))"
      by (auto simp: store_inv_def fmpred_iff)
    with j have "b \<in> set (atoms_by_type ?s' (atom_type b))"
      by (auto simp: by_type erase_first_id_keeps)
    with b show "atom_id b = j \<and> j < c \<and> b \<in> set (atoms_by_type ?s' (atom_type b))"
      by simp
  qed
  have names: "fmpred (\<lambda>n b. atom_name b = n
                  \<and> fmlookup (atoms_by_id ?s') (atom_id b) = Some b) (atoms_by_name ?s')"
  proof (rule fmpredI)
    fix n b
    assume "fmlookup (atoms_by_name ?s') n = Some b"
    then have n: "n \<noteq> atom_name r" "fmlookup (atoms_by_name s) n = Some b"
      by (auto simp: by_name split: if_splits)
    with inv have b: "atom_name b = n" "fmlookup (atoms_by_id s) (atom_id b) = Some b"
      by (auto simp: store_inv_def fmpred_iff)
    have "atom_id b \<noteq> i"
    proof
      assume "atom_id b = i"
      with b Some have "b = r" by simp
      with b n show False by simp
    qed
    with b show "atom_name b = n \<and> fmlookup (atoms_by_id ?s') (atom_id b) = Some b"
      by (simp add: by_id)
  qed
  from ids names show ?thesis by (simp add: store_inv_def)
qed

lemma store_node_X_eq:
  "store_node_X = insert_atom CONCEPT_NODE ''X'' node_X (AtomSpace_new ''tenant1'')"
  by (simp add: store_node_X_def AddNode_def Node_new_def AtomSpace_new_def node_X_def
      next_id_initial_def)

lemma store_link_X_eq:
  "store_link_X = insert_atom INHERITANCE_LINK ''X'' link_X store_node_X"
  by (simp add: store_link_X_def AddLink_def Link_new_def link_X_def)



section \<open>Removal\<close>

text \<open>
  C8. If an atom with id \<open>i\<close> is in the by-id index, \<open>RemoveAtom i\<close> returns true, and in
  the store it leaves \<open>GetAtom i\<close> and \<open>GetAtomByName\<close> of the removed atom's name both
  find nothing and \<open>Size\<close> is exactly one less than before.
\<close>

theorem RemoveAtom_present:
  assumes "GetAtom s i = Some a"
  shows "fst (RemoveAtom i s) = True
       \<and> GetAtom (snd (RemoveAtom i s)) i = None
       \<and> GetAtomByName (snd (RemoveAtom i s)) (atom_name a) = None
       \<and> Size s = Suc (Size (snd (RemoveAtom i s)))"
proof -
  from assms have look: "fmlookup (atoms_by_id s) i = Some a"
    by (simp add: GetAtom_def)
  then have mem: "i |\<in>| fmdom (atoms_by_id s)"
    by (rule fmdomI)
  then have pos: "0 < fcard (fmdom (atoms_by_id s))"
    by (cases "fcard (fmdom (atoms_by_id s))") auto
  have "fcard (fmdom (atoms_by_id s) |-| {|i|}) = fcard (fmdom (atoms_by_id s)) - 1"
    using mem by (rule fcard_fminus_fsingleton)
  with pos have sz: "Size s = Suc (Size (snd (RemoveAtom i s)))"
    using look by (simp add: RemoveAtom_def Size_def)
  from look show ?thesis
    using sz by (simp add: RemoveAtom_def GetAtom_def GetAtomByName_def)
qed

theorem RemoveAtom_present_witness:
  "GetAtom store_node_X 1 = Some node_X
   \<and> fst (RemoveAtom 1 store_node_X) = True
   \<and> GetAtom (snd (RemoveAtom 1 store_node_X)) 1 = None
   \<and> GetAtomByName (snd (RemoveAtom 1 store_node_X)) ''X'' = None
   \<and> Size store_node_X = Suc (Size (snd (RemoveAtom 1 store_node_X)))"
proof -
  have h: "GetAtom store_node_X 1 = Some node_X"
    by (simp add: GetAtom_def store_node_X_eq insert_atom_def node_X_def)
  have n: "atom_name node_X = ''X''"
    by (simp add: node_X_def)
  from RemoveAtom_present [OF h] h n show ?thesis
    by simp
qed

text \<open>
  What \<open>RemoveAtom\<close> of a stored atom leaves alone: the by-id entries of all other ids,
  the by-name entries of all other names, the buckets of all other types and, in the
  bucket of the atom's type, the entries of atoms with other ids. The by-name entry
  under the atom's name is erased whichever atom it holds.
\<close>

lemma erase_first_id_subset: "b \<in> set (erase_first_id i xs) \<Longrightarrow> b \<in> set xs"
  by (induction xs) (auto split: if_splits)

lemma RemoveAtom_frame:
  assumes "GetAtom s i = Some a"
  shows "(\<forall>j. j \<noteq> i \<longrightarrow> GetAtom (snd (RemoveAtom i s)) j = GetAtom s j)
       \<and> (\<forall>nm. nm \<noteq> atom_name a \<longrightarrow>
             GetAtomByName (snd (RemoveAtom i s)) nm = GetAtomByName s nm)
       \<and> (\<forall>ty. ty \<noteq> atom_type a \<longrightarrow>
             GetAtomsByType (snd (RemoveAtom i s)) ty = GetAtomsByType s ty)
       \<and> (\<forall>b. atom_id b \<noteq> i \<longrightarrow>
             (b \<in> set (GetAtomsByType (snd (RemoveAtom i s)) (atom_type a)))
               = (b \<in> set (GetAtomsByType s (atom_type a))))
       \<and> GetAtomByName (snd (RemoveAtom i s)) (atom_name a) = None"
  using assms
  by (auto simp: RemoveAtom_def GetAtom_def GetAtomByName_def GetAtomsByType_def
      erase_first_id_keeps dest: erase_first_id_subset)

text \<open>
  C1, at the store of the scenario. The node "X" has id 1; the link "X", added later, has
  id 2 and holds the by-name entry "X". \<open>RemoveAtom 1\<close> removes the node from the by-id
  index and from the bucket of its type, and erases the by-name entry "X" although it
  refers to the link: the link stays in the by-id index and in its bucket and is no
  longer found by name.
\<close>

theorem RemoveAtom_erases_other_name_holder:
  "GetAtom store_link_X 1 = Some node_X
   \<and> GetAtomByName store_link_X ''X'' = Some link_X
   \<and> fst (RemoveAtom 1 store_link_X) = True
   \<and> GetAtomByName (snd (RemoveAtom 1 store_link_X)) ''X'' = None
   \<and> GetAtom (snd (RemoveAtom 1 store_link_X)) 2 = Some link_X
   \<and> GetAtomsByType (snd (RemoveAtom 1 store_link_X)) INHERITANCE_LINK = [link_X]
   \<and> GetAtomsByType (snd (RemoveAtom 1 store_link_X)) CONCEPT_NODE = []"
  by (simp add: RemoveAtom_def GetAtom_def GetAtomByName_def GetAtomsByType_def
      store_link_X_eq store_node_X_eq insert_atom_def AtomSpace_new_def node_X_def link_X_def)

section \<open>Adding nodes and links\<close>

text \<open>
  C6. When the by-name entry for a name holds a node, \<open>AddNode\<close> with that name and any
  type returns that node and leaves the counter and the whole store (all three indices,
  hence \<open>Size\<close>) as they were; so does every further call, whatever types are requested.
\<close>

theorem AddNode_dedupe:
  assumes "GetAtomByName s nm = Some a" and "IsNode a"
  shows "AddNode ty nm c s = (a, c, s)
       \<and> Size (snd (snd (AddNode ty nm c s))) = Size s
       \<and> AddNode_repeat tys nm c s = (replicate (length tys) a, c, s)"
proof -
  from assms have one: "AddNode ty' nm c s = (a, c, s)" for ty'
    by (simp add: AddNode_def GetAtomByName_def)
  have "AddNode_repeat tys nm c s = (replicate (length tys) a, c, s)"
    by (induction tys) (simp_all add: one)
  with one show ?thesis by simp
qed

theorem AddNode_dedupe_witness:
  "GetAtomByName store_node_X ''X'' = Some node_X \<and> IsNode node_X
   \<and> atom_type node_X \<noteq> PREDICATE_NODE
   \<and> AddNode PREDICATE_NODE ''X'' 2 store_node_X = (node_X, 2, store_node_X)
   \<and> AddNode_repeat [CONCEPT_NODE, PREDICATE_NODE, NODE] ''X'' 2 store_node_X
       = ([node_X, node_X, node_X], 2, store_node_X)"
proof -
  have h: "GetAtomByName store_node_X ''X'' = Some node_X"
    by (simp add: GetAtomByName_def store_node_X_eq insert_atom_def)
  have n: "IsNode node_X" "atom_type node_X \<noteq> PREDICATE_NODE"
    by (simp_all add: IsNode_def node_X_def)
  from AddNode_dedupe [OF h n(1), of PREDICATE_NODE 2 "[CONCEPT_NODE, PREDICATE_NODE, NODE]"] h n
  show ?thesis by (simp add: numeral_3_eq_3)
qed





section \<open>Ids\<close>


lemma store_call_ids:
  "store_call opn c s = (ids, c', s') \<Longrightarrow> (ids = [] \<and> c' = c) \<or> (ids = [c] \<and> c' = c + 1)"
  by (cases opn)
    (auto simp: AddNode_def AddLink_def Node_new_def Link_new_def
      split: option.splits if_splits prod.splits)

lemma process_call_ids:
  "process_call call p = (ids, p') \<Longrightarrow>
   (ids = [] \<and> Atom_next_id p' = Atom_next_id p)
   \<or> (ids = [Atom_next_id p] \<and> Atom_next_id p' = Atom_next_id p + 1)"
  by (auto simp: process_call_def split: prod.splits dest!: store_call_ids)

lemma run_calls_ids:
  "run_calls calls p = (ids, p') \<Longrightarrow>
   ids = map (\<lambda>k. Atom_next_id p + of_nat k) [0..<length ids]
   \<and> Atom_next_id p' = Atom_next_id p + of_nat (length ids)
   \<and> length ids \<le> length calls"
proof (induction calls arbitrary: p ids p')
  case Nil
  then show ?case by simp
next
  case (Cons call calls)
  obtain ids1 p1 where c1: "process_call call p = (ids1, p1)"
    by (cases "process_call call p") auto
  obtain ids2 p2 where c2: "run_calls calls p1 = (ids2, p2)"
    by (cases "run_calls calls p1") auto
  from Cons.prems c1 c2 have ids: "ids = ids1 @ ids2" and p': "p' = p2"
    by simp_all
  note ih = Cons.IH [OF c2]
  from process_call_ids [OF c1] show ?case
  proof
    assume "ids1 = [] \<and> Atom_next_id p1 = Atom_next_id p"
    with ih ids p' show ?thesis by simp
  next
    assume a: "ids1 = [Atom_next_id p] \<and> Atom_next_id p1 = Atom_next_id p + 1"
    have "map (\<lambda>k. Atom_next_id p + of_nat k) [0..<Suc (length ids2)]
        = Atom_next_id p # map (\<lambda>k. Atom_next_id p + 1 + of_nat k) [0..<length ids2]"
      by (simp add: map_upt_Suc ac_simps del: upt_Suc)
    with a ih ids p' show ?thesis
      by (simp add: ac_simps del: upt_Suc)
  qed
qed

lemma unat_add_of_nat:
  "unat c + k < 2 ^ 64 \<Longrightarrow> unat (c + of_nat k) = unat c + k" for c :: "64 word"
proof -
  assume a: "unat c + k < 2 ^ 64"
  then have "unat (of_nat k :: 64 word) = k"
    by (simp add: unat_of_nat)
  with a have "unat c + unat (of_nat k :: 64 word) < 2 ^ LENGTH(64)"
    by simp
  then have "unat (c + of_nat k) = unat c + unat (of_nat k :: 64 word)"
    by (simp only: unat_add_lem)
  with \<open>unat (of_nat k :: 64 word) = k\<close> show ?thesis
    by simp
qed

lemma sorted_no_wrap:
  "unat c + n \<le> 2 ^ 64 \<Longrightarrow> sorted_wrt (<) (map (\<lambda>k. c + of_nat k) [0..<n])"
  for c :: "64 word"
  by (auto simp: sorted_wrt_iff_nth_less word_less_nat_alt unat_add_of_nat)

lemma run_calls_append:
  "run_calls (xs @ ys) p =
     (fst (run_calls xs p) @ fst (run_calls ys (snd (run_calls xs p))),
      snd (run_calls ys (snd (run_calls xs p))))"
  by (induction xs arbitrary: p) (simp_all split: prod.splits)

text \<open>
  Calls made one after another. In a process that starts with the counter at 1, any sequence
  of fewer than \<open>2 ^ 64\<close> calls of \<open>AddNode\<close>, \<open>AddLink\<close>, \<open>RemoveAtom\<close> and \<open>Clear\<close> on any
  stores, made one after another, hands out strictly increasing ids: each constructed
  atom gets an id greater than every id handed out before it, and no id is handed out
  twice, whatever \<open>RemoveAtom\<close> and \<open>Clear\<close> removed in between.
\<close>

theorem ids_strictly_increasing:
  assumes "length calls < 2 ^ 64"
  shows "sorted_wrt (<) (fst (run_calls calls Process_initial))
       \<and> distinct (fst (run_calls calls Process_initial))"
proof -
  obtain ids p' where r: "run_calls calls Process_initial = (ids, p')"
    by (cases "run_calls calls Process_initial") auto
  from run_calls_ids [OF r]
  have ids: "ids = map (\<lambda>k. 1 + of_nat k) [0..<length ids]" and "length ids \<le> length calls"
    by (simp_all add: Process_initial_def next_id_initial_def)
  with assms have "unat (1 :: 64 word) + length ids \<le> 2 ^ 64"
    by simp
  then have "sorted_wrt (<) (map (\<lambda>k. (1 :: 64 word) + of_nat k) [0..<length ids])"
    by (rule sorted_no_wrap)
  with ids have s: "sorted_wrt (<) ids"
    by simp
  then have "distinct ids"
    by (simp add: strict_sorted_iff)
  with s r show ?thesis by simp
qed

lemma example_calls_ids: "fst (run_calls example_calls Process_initial) = [1, 2, 3]"
  by (simp add: example_calls_def Process_initial_def next_id_initial_def process_call_def
      GetOrCreateAtomSpace_def AddNode_def AddLink_def Node_new_def Link_new_def
      insert_atom_def AtomSpace_new_def RemoveAtom_def Clear_def IsNode_def)

theorem ids_strictly_increasing_witness:
  "length example_calls < 2 ^ 64
   \<and> fst (run_calls example_calls Process_initial) = [1, 2, 3]
   \<and> sorted_wrt (<) (fst (run_calls example_calls Process_initial))
   \<and> distinct (fst (run_calls example_calls Process_initial))"
proof -
  have h: "length example_calls < 2 ^ 64"
    by (simp add: example_calls_def)
  from ids_strictly_increasing [OF h] h example_calls_ids show ?thesis
    by blast
qed

text \<open>
  The counter is a \<^verbatim>\<open>uint64_t\<close> and wraps. After \<open>2 ^ 64 - 2\<close> rounds of creating a node
  and clearing the store the counter holds its last value; the next three constructed
  nodes get the ids \<open>2 ^ 64 - 1\<close>, 0 and 1.
\<close>

lemma last_id: "(1 :: 64 word) + of_nat (2 ^ 64 - 2) = - 1"
  by simp

lemma cycle_step:
  assumes "fmlookup (atomspaces p) ''t'' = None
         \<or> fmlookup (atomspaces p) ''t'' = Some (AtomSpace_new ''t'')"
  shows "run_calls [(''t'', OpAddNode NODE ''x''), (''t'', OpClear)] p =
      ([Atom_next_id p],
       \<lparr>Atom_next_id = Atom_next_id p + 1,
        atomspaces = fmupd ''t'' (AtomSpace_new ''t'') (atomspaces p)\<rparr>)"
  using assms
  by (auto simp: process_call_def GetOrCreateAtomSpace_def AddNode_def Node_new_def
      insert_atom_def AtomSpace_new_def Clear_def)

lemma cycles:
  assumes "fmlookup (atomspaces p) ''t'' = None
         \<or> fmlookup (atomspaces p) ''t'' = Some (AtomSpace_new ''t'')"
  shows "run_calls (concat (replicate k [(''t'', OpAddNode NODE ''x''), (''t'', OpClear)])) p =
      (map (\<lambda>j. Atom_next_id p + of_nat j) [0..<k],
       if k = 0 then p
       else \<lparr>Atom_next_id = Atom_next_id p + of_nat k,
             atomspaces = fmupd ''t'' (AtomSpace_new ''t'') (atomspaces p)\<rparr>)"
  using assms
proof (induction k arbitrary: p)
  case 0
  then show ?case by simp
next
  case (Suc k)
  let ?cyc = "[(''t'', OpAddNode NODE ''x''), (''t'', OpClear)]"
  let ?p1 = "\<lparr>Atom_next_id = Atom_next_id p + 1,
        atomspaces = fmupd ''t'' (AtomSpace_new ''t'') (atomspaces p)\<rparr>"
  have step: "run_calls ?cyc p = ([Atom_next_id p], ?p1)"
    using Suc.prems by (rule cycle_step)
  have "fmlookup (atomspaces ?p1) ''t'' = None
      \<or> fmlookup (atomspaces ?p1) ''t'' = Some (AtomSpace_new ''t'')"
    by simp
  note ih = Suc.IH [OF this]
  have "run_calls (concat (replicate (Suc k) ?cyc)) p =
      (Atom_next_id p # fst (run_calls (concat (replicate k ?cyc)) ?p1),
       snd (run_calls (concat (replicate k ?cyc)) ?p1))"
    apply (simp only: replicate.simps concat.simps run_calls_append step fst_conv snd_conv)
    apply (simp only: append_Cons append_Nil)
    done
  moreover have "map (\<lambda>j. Atom_next_id p + of_nat j) [0..<Suc k]
      = Atom_next_id p # map (\<lambda>j. Atom_next_id p + 1 + of_nat j) [0..<k]"
    by (simp add: map_upt_Suc ac_simps del: upt_Suc)
  ultimately show ?case
    using ih by (simp add: ac_simps del: upt_Suc replicate.simps)
qed

lemma wrap_calls_ids:
  "fst (run_calls wrap_calls Process_initial)
     = map (\<lambda>j. 1 + of_nat j) [0..<2 ^ 64 - 2] @ [- 1, 0, 1]"
proof -
  let ?cyc = "[(''t'', OpAddNode NODE ''x''), (''t'', OpClear)]"
  let ?p = "\<lparr>Atom_next_id = - 1, atomspaces = fmupd ''t'' (AtomSpace_new ''t'') fmempty\<rparr>"
  have "fmlookup (atomspaces Process_initial) ''t'' = None
      \<or> fmlookup (atomspaces Process_initial) ''t'' = Some (AtomSpace_new ''t'')"
    by (simp add: Process_initial_def)
  from cycles [OF this, of "2 ^ 64 - 2"]
  have pre: "run_calls (concat (replicate (2 ^ 64 - 2) ?cyc)) Process_initial
      = (map (\<lambda>j. 1 + of_nat j) [0..<2 ^ 64 - 2], ?p)"
    by (simp add: Process_initial_def next_id_initial_def last_id)
  have post: "fst (run_calls [(''t'', OpAddNode NODE ''x''), (''t'', OpAddNode NODE ''y''),
      (''t'', OpAddNode NODE ''z'')] ?p) = [- 1, 0, 1]"
    by (simp add: process_call_def GetOrCreateAtomSpace_def AddNode_def Node_new_def
        insert_atom_def AtomSpace_new_def IsNode_def)
  show ?thesis
    unfolding wrap_calls_def run_calls_append pre
    using post by simp
qed

text \<open>
  On that sequence the ids handed out are not increasing, and the last one is the id of
  the first atom again.
\<close>

theorem ids_wrap_counterexample:
  "\<not> sorted_wrt (<) (fst (run_calls wrap_calls Process_initial))
   \<and> \<not> distinct (fst (run_calls wrap_calls Process_initial))"
proof -
  have "(1 :: 64 word) \<in> set (map (\<lambda>j. 1 + of_nat j) [0..<2 ^ 64 - 2])"
  proof -
    have "(0 :: nat) \<in> set [0..<2 ^ 64 - 2]" by simp
    then have "(1 :: 64 word) + of_nat 0 \<in> (\<lambda>j. 1 + of_nat j) ` set [0..<2 ^ 64 - 2]"
      by (rule imageI)
    then show ?thesis by simp
  qed
  then have "\<not> distinct (map (\<lambda>j. (1 :: 64 word) + of_nat j) [0..<2 ^ 64 - 2] @ [- 1, 0, 1])"
    by (simp only: distinct_append) auto
  moreover have "\<not> sorted_wrt (<) (map (\<lambda>j. (1 :: 64 word) + of_nat j) [0..<2 ^ 64 - 2] @ [- 1, 0, 1])"
    by (simp only: sorted_wrt_append) simp
  ultimately show ?thesis
    by (simp only: wrap_calls_ids) simp
qed

subsection \<open>Calls in two threads\<close>

lemma fmupd_same: "fmlookup m k = Some v \<Longrightarrow> fmupd k v m = m"
  by (rule fmap_ext) auto

text \<open>
  The two steps of a thread that runs alone are the call of \<open>AddNode\<close> on its store.
\<close>

lemma single_thread_is_AddNode:
  assumes "process_call (tenant, OpAddNode ty nm) \<lparr>Atom_next_id = c, atomspaces = m\<rparr> = (ids, p)"
  shows "run_schedule [0, 0]
           \<lparr>shared_next_id = c, shared_atomspaces = m,
            threads = [\<lparr>thread_tenant = tenant, thread_type = ty, thread_name = nm,
                        thread_pc = AtCall\<rparr>]\<rparr>
       = \<lparr>shared_next_id = Atom_next_id p, shared_atomspaces = atomspaces p,
          threads = [\<lparr>thread_tenant = tenant, thread_type = ty, thread_name = nm,
                      thread_pc = Returned
                        (fst (AddNode ty nm c (fst (GetOrCreateAtomSpace tenant m))))\<rparr>]\<rparr>"
  using assms
  by (auto simp: run_schedule_def thread_step_def process_call_def AddNode_def Node_new_def
      GetOrCreateAtomSpace_def holds_mutex_def Let_def insert_atom_def AtomSpace_new_def
      fmupd_same split: option.splits prod.splits if_splits)

text \<open>
  C7 on the code. Two threads call \<open>AddNode\<close> in a fresh process, one on the store of
  "tenant1" and one on the store of "tenant2". When both load the counter before either
  stores it, both nodes get the id 1 and the counter ends at 2: the id is not unique in
  the process and the second id is not greater than the first. When one call runs after
  the other the ids are 1 and 2 and the counter ends at 3.
\<close>

theorem concurrent_AddNode_same_id:
  "map thread_pc (threads (run_schedule [0, 1, 0, 1] two_threads))
     = [Returned \<lparr>atom_type = CONCEPT_NODE, atom_name = ''X'', atom_id = 1,
                  truth_value = TruthValue_default, atom_class = Node\<rparr>,
        Returned \<lparr>atom_type = CONCEPT_NODE, atom_name = ''Y'', atom_id = 1,
                  truth_value = TruthValue_default, atom_class = Node\<rparr>]
   \<and> shared_next_id (run_schedule [0, 1, 0, 1] two_threads) = 2
   \<and> map thread_pc (threads (run_schedule [0, 0, 1, 1] two_threads))
     = [Returned \<lparr>atom_type = CONCEPT_NODE, atom_name = ''X'', atom_id = 1,
                  truth_value = TruthValue_default, atom_class = Node\<rparr>,
        Returned \<lparr>atom_type = CONCEPT_NODE, atom_name = ''Y'', atom_id = 2,
                  truth_value = TruthValue_default, atom_class = Node\<rparr>]
   \<and> shared_next_id (run_schedule [0, 0, 1, 1] two_threads) = 3"
  by (simp add: run_schedule_def thread_step_def two_threads_def next_id_initial_def
      GetOrCreateAtomSpace_def holds_mutex_def Node_new_def insert_atom_def AtomSpace_new_def)

section \<open>Properties of the orchestrator\<close>

subsection \<open>What the steps leave alone\<close>


lemma fold_RouteLike_fields:
  assumes "\<And>x acc. agents (f x acc) = agents acc \<and> scheduled_agents (f x acc) = scheduled_agents acc
      \<and> running (f x acc) = running acc \<and> self (f x acc) = self acc"
  shows "agents (fold f xs orch) = agents orch \<and> scheduled_agents (fold f xs orch) = scheduled_agents orch
      \<and> running (fold f xs orch) = running orch \<and> self (fold f xs orch) = self orch"
  by (induction xs arbitrary: orch) (simp_all add: assms)

lemma SendMessage_fields:
  "agents (SendMessage a sd orch) = agents orch
   \<and> scheduled_agents (SendMessage a sd orch) = scheduled_agents orch
   \<and> running (SendMessage a sd orch) = running orch
   \<and> self (SendMessage a sd orch) = self orch"
  by (simp add: SendMessage_def RouteMessage_def split: prod.splits)

lemma fold_SendMessage_fields:
  "agents (fold (SendMessage a) sends orch) = agents orch
   \<and> scheduled_agents (fold (SendMessage a) sends orch) = scheduled_agents orch
   \<and> running (fold (SendMessage a) sends orch) = running orch
   \<and> self (fold (SendMessage a) sends orch) = self orch"
  by (rule fold_RouteLike_fields) (rule SendMessage_fields)

lemma deliver_fields:
  "state_of (deliver m orch) k = state_of orch k
   \<and> class_of (deliver m orch) k = class_of orch k
   \<and> scheduled_agents (deliver m orch) = scheduled_agents orch
   \<and> running (deliver m orch) = running orch"
  by (auto simp: deliver_def state_of_def class_of_def GetAgent_def fold_SendMessage_fields
      split: option.splits prod.splits)

lemma fold_deliver_fields:
  "state_of (fold deliver ms orch) k = state_of orch k
   \<and> class_of (fold deliver ms orch) k = class_of orch k
   \<and> scheduled_agents (fold deliver ms orch) = scheduled_agents orch
   \<and> running (fold deliver ms orch) = running orch"
  by (induction ms arbitrary: orch) (simp_all add: deliver_fields)

lemma ProcessMessageQueue_fields:
  "state_of (ProcessMessageQueue orch) k = state_of orch k
   \<and> class_of (ProcessMessageQueue orch) k = class_of orch k
   \<and> scheduled_agents (ProcessMessageQueue orch) = scheduled_agents orch
   \<and> running (ProcessMessageQueue orch) = running orch"
  by (simp add: ProcessMessageQueue_def fold_deliver_fields)
    (simp add: state_of_def class_of_def GetAgent_def)

lemma execute_scheduled_other:
  assumes "state_of o1 k = Some FAILED"
  shows "fst (execute_scheduled o1) \<noteq> Some k
       \<and> state_of (snd (execute_scheduled o1)) k = Some FAILED
       \<and> class_of (snd (execute_scheduled o1)) k = class_of o1 k
       \<and> running (snd (execute_scheduled o1)) = running o1"
  using assms
  by (auto simp: execute_scheduled_def state_of_def class_of_def GetAgent_def Let_def
      fold_SendMessage_fields split: list.splits option.splits prod.splits)

lemma execute_scheduled_raises:
  assumes run: "execute_scheduled o1 = (Some k, orch')" and cls: "class_of o1 k = Some cls"
    and raises: "\<forall>x. fst (Execute cls x)"
  shows "state_of orch' k = Some FAILED \<and> class_of orch' k = Some cls \<and> running orch' = running o1"
proof -
  have r: "raised" if "Execute cls x = (raised, u, sends)" for x raised u sends
    using raises that by (metis fst_conv)
  from run cls show ?thesis
    by (auto simp: execute_scheduled_def state_of_def class_of_def GetAgent_def Let_def
        fold_SendMessage_fields split: list.splits option.splits prod.splits if_splits dest: r)
qed

lemma RegisterAgent_other:
  assumes "state_of orch k = Some st"
  shows "state_of (snd (RegisterAgent agent orch)) k = Some st
       \<and> class_of (snd (RegisterAgent agent orch)) k = class_of orch k"
  using assms
  by (auto simp: RegisterAgent_def state_of_def class_of_def GetAgent_def Let_def
      fold_SendMessage_fields split: option.splits prod.splits)

lemma BroadcastMessage_fields:
  "agents (BroadcastMessage sender ty pl now orch) = agents orch
   \<and> scheduled_agents (BroadcastMessage sender ty pl now orch) = scheduled_agents orch
   \<and> running (BroadcastMessage sender ty pl now orch) = running orch
   \<and> self (BroadcastMessage sender ty pl now orch) = self orch"
  unfolding BroadcastMessage_def
  by (rule fold_RouteLike_fields) (simp add: RouteMessage_def)

lemma step_failed:
  assumes "state_of orch k = Some FAILED"
  shows "fst (step e orch) \<noteq> Some k
       \<and> state_of (snd (step e orch)) k = Some FAILED
       \<and> class_of (snd (step e orch)) k = class_of orch k"
proof (cases e)
  case (Ev_RegisterAgent agent)
  with assms show ?thesis by (simp add: RegisterAgent_other)
next
  case (Ev_BroadcastMessage sender ty pl now)
  with assms show ?thesis
    by (simp add: state_of_def class_of_def GetAgent_def BroadcastMessage_fields)
next
  case Ev_Iteration
  from assms have "state_of (ProcessMessageQueue orch) k = Some FAILED"
    by (simp add: ProcessMessageQueue_fields)
  from execute_scheduled_other [OF this] Ev_Iteration assms show ?thesis
    by (simp add: OrchestratorLoop_step_def OrchestratorLoop_body_def ProcessMessageQueue_fields)
qed (use assms in \<open>simp_all add: state_of_def class_of_def GetAgent_def ScheduleAgent_def
      RouteMessage_def Start_def Stop_def\<close>)

lemma run_failed:
  assumes "state_of orch k = Some FAILED"
  shows "k \<notin> set (fst (run es orch))
       \<and> state_of (snd (run es orch)) k = Some FAILED
       \<and> class_of (snd (run es orch)) k = class_of orch k"
  using assms
proof (induction es arbitrary: orch)
  case Nil
  then show ?case by simp
next
  case (Cons e es)
  note s = step_failed [OF Cons.prems, of e]
  from s have "state_of (snd (step e orch)) k = Some FAILED" by simp
  from Cons.IH [OF this] s show ?case
    by (auto split: prod.splits option.splits)
qed

lemma registered_failed_iff:
  "(\<exists>a. GetAgent orch k = Some (a, cls) \<and> agent_state a = FAILED)
   \<longleftrightarrow> state_of orch k = Some FAILED \<and> class_of orch k = Some cls"
  by (auto simp: state_of_def class_of_def)

text \<open>
  C2. Take an agent whose \<open>Execute\<close> raises on every invocation, and an iteration of the
  worker loop that dispatches it. The iteration ends normally with the orchestrator
  still running and the agent in state \<open>FAILED\<close>. In every run from there, whatever
  the clients schedule, route, broadcast or register and however often the worker
  iterates, \<open>Execute\<close> of the agent is never called again and the agent stays \<open>FAILED\<close>.
\<close>

theorem faulting_agent_never_redispatched:
  assumes reg: "GetAgent orch k = Some (a, cls)"
    and raises: "\<forall>x. fst (Execute cls x)"
    and first: "OrchestratorLoop_step orch = (Some k, orch')"
  shows "running orch'
       \<and> (\<exists>a'. GetAgent orch' k = Some (a', cls) \<and> agent_state a' = FAILED)
       \<and> (\<forall>es. k \<notin> set (fst (run es orch'))
              \<and> (\<exists>a''. GetAgent (snd (run es orch')) k = Some (a'', cls)
                      \<and> agent_state a'' = FAILED))"
proof -
  from first have run: "running orch"
    and ex: "execute_scheduled (ProcessMessageQueue orch) = (Some k, orch')"
    by (auto simp: OrchestratorLoop_step_def OrchestratorLoop_body_def split: if_splits)
  from reg have "class_of (ProcessMessageQueue orch) k = Some cls"
    by (simp add: ProcessMessageQueue_fields) (simp add: class_of_def)
  from execute_scheduled_raises [OF ex this raises] run
  have failed: "state_of orch' k = Some FAILED" and cls: "class_of orch' k = Some cls"
    and running: "running orch'"
    by (simp_all add: ProcessMessageQueue_fields)
  from failed cls have now: "\<exists>a'. GetAgent orch' k = Some (a', cls) \<and> agent_state a' = FAILED"
    by (simp add: registered_failed_iff)
  have later: "k \<notin> set (fst (run es orch'))
      \<and> (\<exists>a''. GetAgent (snd (run es orch')) k = Some (a'', cls) \<and> agent_state a'' = FAILED)"
    for es
    using run_failed [OF failed, of es] cls by (simp add: registered_failed_iff)
  from running now later show ?thesis by blast
qed

lemmas orchestrator_defs =
  RegisterAgent_def GetAgent_def Start_def Stop_def ScheduleAgent_def RouteMessage_def
  SendMessage_def deliver_def ProcessMessageQueue_def execute_scheduled_def
  OrchestratorLoop_body_def OrchestratorLoop_step_def AgentOrchestrator_new_def
  Agent_new_def Agent_Initialize_def Agent_Shutdown_def Agent_OnMessage_def

lemma three_agents_eq:
  "three_agents =
     \<lparr>self = 0, running = False,
      agents =
        fmupd ''agent3''
          (\<lparr>agent_id = ''agent3'', agent_tenant_id = ''tenant1'', agent_state = IDLE,
            orchestrator = Some 0, members = (0, [])\<rparr>, ThrowingAgent)
          (fmupd ''agent2''
            (\<lparr>agent_id = ''agent2'', agent_tenant_id = ''tenant1'', agent_state = IDLE,
              orchestrator = Some 0, members = (0, [])\<rparr>, TestAgent)
            (fmupd ''agent1''
              (\<lparr>agent_id = ''agent1'', agent_tenant_id = ''tenant1'', agent_state = IDLE,
                orchestrator = Some 0, members = (0, [])\<rparr>, TestAgent)
              fmempty)),
      message_queue = [], scheduled_agents = []\<rparr>"
  by (simp add: three_agents_def RegisterAgent_def AgentOrchestrator_new_def Agent_new_def
      Agent_Initialize_def test_agent_def TestAgent_def ThrowingAgent_def)

theorem faulting_agent_never_redispatched_witness:
  "(\<exists>a. GetAgent faulty_scheduled ''agent3'' = Some (a, ThrowingAgent))
   \<and> (\<forall>x. fst (Execute ThrowingAgent x))
   \<and> fst (OrchestratorLoop_step faulty_scheduled) = Some ''agent3''
   \<and> ''agent3'' \<notin> set (fst (run [Ev_ScheduleAgent ''agent3'', Ev_Iteration,
                                  Ev_ScheduleAgent ''agent3'', Ev_Iteration]
                                 (snd (OrchestratorLoop_step faulty_scheduled))))
   \<and> fst (run [Ev_ScheduleAgent ''agent3'', Ev_Iteration, Ev_ScheduleAgent ''agent1'', Ev_Iteration]
             (snd (OrchestratorLoop_step faulty_scheduled))) = [''agent1'']"
proof -
  let ?a = "\<lparr>agent_id = ''agent3'', agent_tenant_id = ''tenant1'', agent_state = IDLE,
            orchestrator = Some 0, members = (0 :: nat, [] :: AgentMessage list)\<rparr>"
  have reg: "GetAgent faulty_scheduled ''agent3'' = Some (?a, ThrowingAgent)"
    by (simp add: faulty_scheduled_def three_agents_eq GetAgent_def ScheduleAgent_def Start_def)
  have raises: "\<forall>x. fst (Execute ThrowingAgent x)"
    by (simp add: ThrowingAgent_def)
  have d: "fst (OrchestratorLoop_step faulty_scheduled) = Some ''agent3''"
    by (simp add: faulty_scheduled_def three_agents_eq orchestrator_defs ThrowingAgent_def)
  then have first: "OrchestratorLoop_step faulty_scheduled
      = (Some ''agent3'', snd (OrchestratorLoop_step faulty_scheduled))"
    by (simp add: prod_eq_iff)
  have other: "fst (run [Ev_ScheduleAgent ''agent3'', Ev_Iteration, Ev_ScheduleAgent ''agent1'',
      Ev_Iteration] (snd (OrchestratorLoop_step faulty_scheduled))) = [''agent1'']"
    by (simp add: faulty_scheduled_def three_agents_eq orchestrator_defs ThrowingAgent_def
        TestAgent_def)
  from faulting_agent_never_redispatched [OF reg raises first] reg raises d other
  show ?thesis by blast
qed

subsection \<open>Broadcast\<close>

lemma broadcast_fold:
  "fold (\<lambda>k acc. if k \<noteq> sender then RouteMessage (msg k) acc else acc) ks orch
     = orch\<lparr>message_queue := message_queue orch @ map msg (filter (\<lambda>k. k \<noteq> sender) ks)\<rparr>"
  by (induction ks arbitrary: orch) (simp_all add: RouteMessage_def)

lemma filter_sorted_list_of_fset:
  "filter (\<lambda>k. k \<noteq> x) (sorted_list_of_fset S) = sorted_list_of_fset (S |-| {|x|})"
proof -
  have "sorted_list_of_set (fset S - {x}) = remove1 x (sorted_list_of_set (fset S))"
    by (simp add: sorted_list_of_set_remove)
  also have "\<dots> = filter (\<lambda>k. k \<noteq> x) (sorted_list_of_set (fset S))"
    by (simp add: distinct_remove1_removeAll removeAll_filter_not_eq) (metis)
  finally show ?thesis
    by (simp add: sorted_list_of_fset.rep_eq)
qed

lemma length_sorted_list_of_fset: "length (sorted_list_of_fset S) = fcard S"
  by (simp add: sorted_list_of_fset.rep_eq fcard.rep_eq)

text \<open>
  C5. \<open>BroadcastMessage\<close> from \<open>A\<close> appends to the message queue one message per registered
  agent other than \<open>A\<close>, in the order of the registry (ascending ids), each from \<open>A\<close> with the
  given type and payload, none addressed to \<open>A\<close>; it changes nothing else of the registry.
  When \<open>A\<close> is one of the \<open>n\<close> registered agents these are exactly \<open>n - 1\<close> messages.
\<close>

theorem BroadcastMessage_recipients:
  "message_queue (BroadcastMessage sender ty pl now orch)
     = message_queue orch
       @ map (\<lambda>k. \<lparr>from_agent_id = sender, to_agent_id = k, message_type = ty,
                   payload = pl, timestamp = now k\<rparr>)
           (sorted_list_of_fset (fmdom (agents orch) |-| {|sender|}))
   \<and> (GetAgent orch sender \<noteq> None \<longrightarrow>
        length (message_queue (BroadcastMessage sender ty pl now orch))
          = length (message_queue orch) + (fcard (fmdom (agents orch)) - 1))
   \<and> (\<forall>m \<in> set (drop (length (message_queue orch))
                    (message_queue (BroadcastMessage sender ty pl now orch))).
         to_agent_id m \<noteq> sender \<and> GetAgent orch (to_agent_id m) \<noteq> None
         \<and> from_agent_id m = sender \<and> message_type m = ty \<and> payload m = pl)
   \<and> agents (BroadcastMessage sender ty pl now orch) = agents orch"
proof -
  let ?msg = "\<lambda>k. \<lparr>from_agent_id = sender, to_agent_id = k, message_type = ty,
                   payload = pl, timestamp = now k\<rparr>"
  let ?keys = "sorted_list_of_fset (fmdom (agents orch) |-| {|sender|})"
  have q: "message_queue (BroadcastMessage sender ty pl now orch)
      = message_queue orch @ map ?msg ?keys"
    by (simp add: BroadcastMessage_def broadcast_fold filter_sorted_list_of_fset)
  have n: "length (message_queue (BroadcastMessage sender ty pl now orch))
      = length (message_queue orch) + (fcard (fmdom (agents orch)) - 1)"
    if "GetAgent orch sender \<noteq> None"
  proof -
    from that have "sender |\<in>| fmdom (agents orch)"
      by (auto simp: GetAgent_def intro: fmdomI)
    then have "fcard (fmdom (agents orch) |-| {|sender|}) = fcard (fmdom (agents orch)) - 1"
      by (rule fcard_fminus_fsingleton)
    then show ?thesis
      by (simp add: q length_sorted_list_of_fset)
  qed
  have k: "k \<noteq> sender \<and> GetAgent orch k \<noteq> None" if "k \<in> set ?keys" for k
  proof -
    from that have "k |\<in>| fmdom (agents orch) |-| {|sender|}"
      by (simp add: sorted_list_of_fset.rep_eq)
    then show ?thesis
      by (auto simp: GetAgent_def fmlookup_dom_iff)
  qed
  have m: "\<forall>m \<in> set (drop (length (message_queue orch))
                    (message_queue (BroadcastMessage sender ty pl now orch))).
         to_agent_id m \<noteq> sender \<and> GetAgent orch (to_agent_id m) \<noteq> None
         \<and> from_agent_id m = sender \<and> message_type m = ty \<and> payload m = pl"
    using k by (auto simp: q)
  have a: "agents (BroadcastMessage sender ty pl now orch) = agents orch"
    by (simp add: BroadcastMessage_def broadcast_fold)
  from q n m a show ?thesis by blast
qed

theorem BroadcastMessage_recipients_witness:
  "GetAgent three_agents ''agent1'' \<noteq> None
   \<and> fcard (fmdom (agents three_agents)) = 3
   \<and> message_queue (BroadcastMessage ''agent1'' ''broadcast'' ''Hello everyone!'' (\<lambda>k. 0) three_agents)
       = [\<lparr>from_agent_id = ''agent1'', to_agent_id = ''agent2'', message_type = ''broadcast'',
           payload = ''Hello everyone!'', timestamp = 0\<rparr>,
          \<lparr>from_agent_id = ''agent1'', to_agent_id = ''agent3'', message_type = ''broadcast'',
           payload = ''Hello everyone!'', timestamp = 0\<rparr>]"
proof -
  have reg: "GetAgent three_agents ''agent1'' \<noteq> None"
    by (simp add: three_agents_eq GetAgent_def)
  have n: "fcard (fmdom (agents three_agents)) = 3"
    by (simp add: three_agents_eq fcard_finsert_if)
  have "fmdom (agents three_agents) |-| {|''agent1''|} = {|''agent3'', ''agent2''|}"
    by (auto simp: three_agents_eq)
  then have keys: "sorted_list_of_fset (fmdom (agents three_agents) |-| {|''agent1''|})
      = [''agent2'', ''agent3'']"
    by (simp add: sorted_list_of_fset.rep_eq)
  have q: "message_queue three_agents = []"
    by (simp add: three_agents_eq)
  from BroadcastMessage_recipients
    [of "''agent1''" "''broadcast''" "''Hello everyone!''" "\<lambda>k. 0" three_agents]
    reg n keys q
  show ?thesis by simp
qed

subsection \<open>Registration\<close>

lemma RegisterAgent_duplicate:
  "GetAgent orch (agent_id a) \<noteq> None \<Longrightarrow> RegisterAgent (Some (a, cls)) orch = (False, orch)"
  by (simp add: RegisterAgent_def GetAgent_def)

lemma RegisterAgent_fresh:
  assumes "GetAgent orch (agent_id a) = None"
    and "Initialize cls (a\<lparr>orchestrator := Some (self orch)\<rparr>) = (ok, st, u, sends)"
  shows "fst (RegisterAgent (Some (a, cls)) orch) = ok"
    and "GetAgent (snd (RegisterAgent (Some (a, cls)) orch)) (agent_id a)
      = Some (a\<lparr>orchestrator := Some (self orch), agent_state := st, members := u\<rparr>, cls)"
    and "scheduled_agents (snd (RegisterAgent (Some (a, cls)) orch)) = scheduled_agents orch"
  using assms
  by (simp_all add: RegisterAgent_def GetAgent_def Let_def fold_SendMessage_fields)

lemma register_all_duplicates:
  assumes "GetAgent orch i \<noteq> None" and "\<forall>b \<in> set attempts. agent_id (fst b) = i"
  shows "register_all attempts orch = (replicate (length attempts) False, orch)"
  using assms
proof (induction attempts)
  case Nil
  then show ?case by simp
next
  case (Cons b attempts)
  obtain a cls where b: "b = (a, cls)" by (cases b)
  with Cons.prems have "RegisterAgent (Some b) orch = (False, orch)"
    by (simp add: RegisterAgent_duplicate)
  with Cons show ?case by simp
qed

text \<open>
  C3, as the code has it. \<open>RegisterAgent\<close> returns false and changes nothing for a null
  agent and for an id that is registered; otherwise it binds the agent, stores it,
  calls \<open>Initialize\<close> and returns its result. Of \<open>N \<ge> 1\<close> attempts with one id that was not
  registered, made one after another, all but the first fail, and the first succeeds
  exactly when its \<open>Initialize\<close> returns true: the attempts succeed once or never.
\<close>

theorem RegisterAgent_results:
  "RegisterAgent None orch = (False, orch)
   \<and> (GetAgent orch (agent_id a) \<noteq> None \<longrightarrow> RegisterAgent (Some (a, cls)) orch = (False, orch))
   \<and> (GetAgent orch (agent_id a) = None
        \<and> Initialize cls (a\<lparr>orchestrator := Some (self orch)\<rparr>) = (ok, st, u, sends) \<longrightarrow>
          fst (RegisterAgent (Some (a, cls)) orch) = ok
          \<and> GetAgent (snd (RegisterAgent (Some (a, cls)) orch)) (agent_id a)
              = Some (a\<lparr>orchestrator := Some (self orch), agent_state := st, members := u\<rparr>, cls))
   \<and> (GetAgent orch (agent_id a) = None
        \<and> (\<forall>b \<in> set rest. agent_id (fst b) = agent_id a) \<longrightarrow>
          fst (register_all ((a, cls) # rest) orch)
            = fst (Initialize cls (a\<lparr>orchestrator := Some (self orch)\<rparr>))
              # replicate (length rest) False
          \<and> length (filter id (fst (register_all ((a, cls) # rest) orch)))
              = (if fst (Initialize cls (a\<lparr>orchestrator := Some (self orch)\<rparr>)) then 1 else 0))"
proof -
  have null: "RegisterAgent None orch = (False, orch)"
    by (simp add: RegisterAgent_def)
  have dup: "RegisterAgent (Some (a, cls)) orch = (False, orch)"
    if "GetAgent orch (agent_id a) \<noteq> None"
    using that by (rule RegisterAgent_duplicate)
  have new: "fst (RegisterAgent (Some (a, cls)) orch) = ok
      \<and> GetAgent (snd (RegisterAgent (Some (a, cls)) orch)) (agent_id a)
          = Some (a\<lparr>orchestrator := Some (self orch), agent_state := st, members := u\<rparr>, cls)"
    if "GetAgent orch (agent_id a) = None"
      and "Initialize cls (a\<lparr>orchestrator := Some (self orch)\<rparr>) = (ok, st, u, sends)"
    using RegisterAgent_fresh(1,2) [OF that] by simp
  have many: "fst (register_all ((a, cls) # rest) orch)
        = fst (Initialize cls (a\<lparr>orchestrator := Some (self orch)\<rparr>))
          # replicate (length rest) False
      \<and> length (filter id (fst (register_all ((a, cls) # rest) orch)))
          = (if fst (Initialize cls (a\<lparr>orchestrator := Some (self orch)\<rparr>)) then 1 else 0)"
    if fresh: "GetAgent orch (agent_id a) = None"
      and same: "\<forall>b \<in> set rest. agent_id (fst b) = agent_id a"
  proof -
    obtain ok' st' u' sends' where
      init: "Initialize cls (a\<lparr>orchestrator := Some (self orch)\<rparr>) = (ok', st', u', sends')"
      by (cases "Initialize cls (a\<lparr>orchestrator := Some (self orch)\<rparr>)") auto
    obtain r o1 where reg: "RegisterAgent (Some (a, cls)) orch = (r, o1)"
      by (cases "RegisterAgent (Some (a, cls)) orch") auto
    from RegisterAgent_fresh(1,2) [OF fresh init] reg
    have r: "r = ok'" and "GetAgent o1 (agent_id a) \<noteq> None"
      by simp_all
    from register_all_duplicates [OF this(2) same]
    have "register_all rest o1 = (replicate (length rest) False, o1)" .
    with r reg init show ?thesis by simp
  qed
  from null dup new many show ?thesis by blast
qed

theorem RegisterAgent_results_witness:
  "GetAgent (AgentOrchestrator_new 0 :: (nat \<times> AgentMessage list) AgentOrchestrator) ''agent1'' = None
   \<and> fst (register_all
            [test_agent ''agent1'' TestAgent, test_agent ''agent1'' TestAgent,
             test_agent ''agent1'' RefusingAgent]
            (AgentOrchestrator_new 0)) = [True, False, False]
   \<and> fst (RegisterAgent (Some (test_agent ''agent1'' TestAgent)) three_agents) = False
   \<and> fst (RegisterAgent None three_agents) = False"
proof -
  let ?o = "AgentOrchestrator_new 0 :: (nat \<times> AgentMessage list) AgentOrchestrator"
  let ?a = "Agent_new ''agent1'' ''tenant1'' (0 :: nat, [] :: AgentMessage list)"
  have fresh: "GetAgent ?o (agent_id ?a) = None"
    by (simp add: GetAgent_def AgentOrchestrator_new_def Agent_new_def)
  have same: "\<forall>b \<in> set [test_agent ''agent1'' TestAgent, test_agent ''agent1'' RefusingAgent].
      agent_id (fst b) = agent_id ?a"
    by (simp add: test_agent_def Agent_new_def)
  have init: "fst (Initialize TestAgent (?a\<lparr>orchestrator := Some (self ?o)\<rparr>)) = True"
    by (simp add: TestAgent_def Agent_Initialize_def)
  have dup: "GetAgent three_agents (agent_id ?a) \<noteq> None"
    by (simp add: three_agents_eq GetAgent_def Agent_new_def)
  from RegisterAgent_results
    [of ?o ?a TestAgent True IDLE "(0, [])" "[]"
      "[test_agent ''agent1'' TestAgent, test_agent ''agent1'' RefusingAgent]"]
    RegisterAgent_results [of three_agents ?a TestAgent]
    fresh same init dup
  show ?thesis
    by (simp add: test_agent_def Agent_new_def)
qed

text \<open>
  C3 as stated (``exactly once'') fails: three attempts with the id "agent1" on a fresh
  orchestrator, the first with an agent whose \<open>Initialize\<close> returns false, all fail.
\<close>

theorem RegisterAgent_exactly_once_counterexample:
  "GetAgent (AgentOrchestrator_new 0 :: (nat \<times> AgentMessage list) AgentOrchestrator) ''agent1'' = None
   \<and> agent_id (fst (test_agent ''agent1'' RefusingAgent)) = ''agent1''
   \<and> agent_id (fst (test_agent ''agent1'' TestAgent)) = ''agent1''
   \<and> fst (register_all
            [test_agent ''agent1'' RefusingAgent, test_agent ''agent1'' TestAgent,
             test_agent ''agent1'' TestAgent]
            (AgentOrchestrator_new 0)) = [False, False, False]"
  by (simp add: RegisterAgent_def GetAgent_def AgentOrchestrator_new_def test_agent_def
      Agent_new_def RefusingAgent_def TestAgent_def)

lemma execute_scheduled_front:
  assumes "scheduled_agents o1 = k # rest" and "state_of o1 k = Some st"
  shows "(fst (execute_scheduled o1) = Some k) = (k \<noteq> [] \<and> st = IDLE)"
  using assms
  by (auto simp: execute_scheduled_def state_of_def GetAgent_def Let_def
      split: option.splits prod.splits)

lemma deliver_object:
  assumes "GetAgent orch k = Some (a, cls)"
  shows "\<exists>u. GetAgent (deliver m orch) k = Some (a\<lparr>members := u\<rparr>, cls)"
proof (cases "to_agent_id m = k")
  case True
  with assms show ?thesis
    by (auto simp: deliver_def GetAgent_def fold_SendMessage_fields split: prod.splits)
next
  case False
  have "a\<lparr>members := members a\<rparr> = a" by simp
  with False assms have "GetAgent (deliver m orch) k = Some (a\<lparr>members := members a\<rparr>, cls)"
    by (auto simp: deliver_def GetAgent_def fold_SendMessage_fields split: option.splits prod.splits)
  then show ?thesis by blast
qed

lemma fold_deliver_object:
  assumes "GetAgent orch k = Some (a, cls)"
  shows "\<exists>u. GetAgent (fold deliver ms orch) k = Some (a\<lparr>members := u\<rparr>, cls)"
  using assms
proof (induction ms arbitrary: orch a)
  case Nil
  have "a\<lparr>members := members a\<rparr> = a" by simp
  with Nil have "GetAgent (fold deliver [] orch) k = Some (a\<lparr>members := members a\<rparr>, cls)"
    by simp
  then show ?case by blast
next
  case (Cons m ms)
  from deliver_object [OF Cons.prems, of m]
  obtain u where "GetAgent (deliver m orch) k = Some (a\<lparr>members := u\<rparr>, cls)" by blast
  from Cons.IH [OF this] show ?case by auto
qed

lemma ProcessMessageQueue_object:
  assumes "GetAgent orch k = Some (a, cls)"
  shows "\<exists>u. GetAgent (ProcessMessageQueue orch) k = Some (a\<lparr>members := u\<rparr>, cls)"
proof -
  from assms have "GetAgent (orch\<lparr>message_queue := []\<rparr>) k = Some (a, cls)"
    by (simp add: GetAgent_def)
  from fold_deliver_object [OF this] show ?thesis
    by (simp add: ProcessMessageQueue_def)
qed

lemma execute_scheduled_result:
  assumes "scheduled_agents o1 = k # rest" and "GetAgent o1 k = Some (a1, cls)"
  shows "execute_scheduled o1 =
     (if k \<noteq> [] \<and> agent_state a1 = IDLE
      then (Some k,
            fold (SendMessage (a1\<lparr>agent_state := RUNNING\<rparr>))
              (snd (snd (Execute cls (a1\<lparr>agent_state := RUNNING\<rparr>))))
              (o1\<lparr>scheduled_agents := rest,
                  agents := fmupd k
                    (a1\<lparr>members := fst (snd (Execute cls (a1\<lparr>agent_state := RUNNING\<rparr>))),
                        agent_state := (if fst (Execute cls (a1\<lparr>agent_state := RUNNING\<rparr>))
                                        then FAILED else IDLE)\<rparr>, cls)
                    (agents o1)\<rparr>))
      else (None, o1\<lparr>scheduled_agents := rest\<rparr>))"
  using assms
  by (auto simp: execute_scheduled_def GetAgent_def Let_def split: prod.splits)

text \<open>
  C9. When \<open>RegisterAgent\<close> is called with an agent that is not registered and whose
  \<open>Initialize\<close> returns false, the call returns false and the agent is in the registry,
  bound to the orchestrator, as \<open>Initialize\<close> left it (\<open>areg\<close>). A later \<open>RegisterAgent\<close>
  with the same id returns false and changes nothing. \<open>ScheduleAgent\<close> puts its id into
  the schedule queue. Once the orchestrator is started (\<open>q\<close>), the worker iteration that
  pops the id first delivers the queued messages and then, when the id is not empty and
  the state is \<open>IDLE\<close> (the conditions of the loop for every registered agent), calls
  \<open>Execute\<close> on the agent in state \<open>RUNNING\<close>: it stores the subclass data \<open>Execute\<close> returned,
  sends the messages \<open>Execute\<close> sent and leaves the agent \<open>IDLE\<close>, or \<open>FAILED\<close> when \<open>Execute\<close>
  raised. Otherwise the iteration only pops the id.
\<close>

theorem RegisterAgent_failed_Initialize:
  assumes fresh: "GetAgent orch (agent_id a) = None"
    and init: "Initialize cls (a\<lparr>orchestrator := Some (self orch)\<rparr>) = (False, st, u, sends)"
    and call: "RegisterAgent (Some (a, cls)) orch = (ok, orch')"
    and areg: "areg = a\<lparr>orchestrator := Some (self orch), agent_state := st, members := u\<rparr>"
    and q: "q = ScheduleAgent (agent_id a) (Start orch')"
  shows "ok = False
       \<and> GetAgent orch' (agent_id a) = Some (areg, cls)
       \<and> (\<forall>b. agent_id (fst b) = agent_id a \<longrightarrow> RegisterAgent (Some b) orch' = (False, orch'))
       \<and> scheduled_agents (ScheduleAgent (agent_id a) orch') = scheduled_agents orch @ [agent_id a]
       \<and> (scheduled_agents orch = [] \<longrightarrow>
            (fst (OrchestratorLoop_step q) = Some (agent_id a)) = (agent_id a \<noteq> [] \<and> st = IDLE))
       \<and> (scheduled_agents orch = [] \<longrightarrow>
            (\<exists>u1 a1 q1.
                q1 = ProcessMessageQueue q
              \<and> GetAgent q1 (agent_id a) = Some (areg\<lparr>members := u1\<rparr>, cls)
              \<and> a1 = areg\<lparr>members := u1, agent_state := RUNNING\<rparr>
              \<and> OrchestratorLoop_step q =
                  (if agent_id a \<noteq> [] \<and> st = IDLE
                   then (Some (agent_id a),
                         fold (SendMessage a1) (snd (snd (Execute cls a1)))
                           (q1\<lparr>scheduled_agents := [],
                               agents := fmupd (agent_id a)
                                 (a1\<lparr>members := fst (snd (Execute cls a1)),
                                     agent_state := (if fst (Execute cls a1) then FAILED else IDLE)\<rparr>,
                                  cls)
                                 (agents q1)\<rparr>))
                   else (None, q1\<lparr>scheduled_agents := []\<rparr>))))
       \<and> (scheduled_agents orch = [] \<and> message_queue orch = [] \<and> sends = []
            \<and> agent_id a \<noteq> [] \<and> st = IDLE \<longrightarrow>
            GetAgent (snd (OrchestratorLoop_step q)) (agent_id a)
              = Some (areg\<lparr>members := fst (snd (Execute cls (areg\<lparr>agent_state := RUNNING\<rparr>))),
                          agent_state := (if fst (Execute cls (areg\<lparr>agent_state := RUNNING\<rparr>))
                                          then FAILED else IDLE)\<rparr>, cls))"
proof -
  from RegisterAgent_fresh [OF fresh init] call areg
  have ok: "ok = False"
    and reg: "GetAgent orch' (agent_id a) = Some (areg, cls)"
    and sched: "scheduled_agents orch' = scheduled_agents orch"
    by simp_all
  have dup: "RegisterAgent (Some b) orch' = (False, orch')" if "agent_id (fst b) = agent_id a" for b
  proof -
    obtain a' cls' where b: "b = (a', cls')" by (cases b)
    with that reg have "GetAgent orch' (agent_id a') \<noteq> None" by simp
    then show ?thesis unfolding b by (rule RegisterAgent_duplicate)
  qed
  have queue: "scheduled_agents (ScheduleAgent (agent_id a) orch') = scheduled_agents orch @ [agent_id a]"
    by (simp add: ScheduleAgent_def sched)
  have run: "running q"
    by (simp add: q ScheduleAgent_def Start_def)
  have regq: "GetAgent q (agent_id a) = Some (areg, cls)"
    using reg by (simp add: q GetAgent_def ScheduleAgent_def Start_def)
  have st: "agent_state areg = st"
    by (simp add: areg)
  have step: "OrchestratorLoop_step q = execute_scheduled (ProcessMessageQueue q)"
    using run by (simp add: OrchestratorLoop_step_def OrchestratorLoop_body_def)
  have front: "scheduled_agents (ProcessMessageQueue q) = agent_id a # []"
    if "scheduled_agents orch = []"
    using that sched by (simp add: ProcessMessageQueue_fields) (simp add: q ScheduleAgent_def Start_def)
  have dispatch: "(fst (OrchestratorLoop_step q) = Some (agent_id a)) = (agent_id a \<noteq> [] \<and> st = IDLE)"
    if "scheduled_agents orch = []"
  proof -
    have "state_of q (agent_id a) = Some st"
      using regq st by (simp add: state_of_def)
    then have "state_of (ProcessMessageQueue q) (agent_id a) = Some st"
      by (simp add: ProcessMessageQueue_fields)
    from execute_scheduled_front [OF front [OF that] this] show ?thesis
      by (simp add: step)
  qed
  have exec: "\<exists>u1 a1 q1.
        q1 = ProcessMessageQueue q
      \<and> GetAgent q1 (agent_id a) = Some (areg\<lparr>members := u1\<rparr>, cls)
      \<and> a1 = areg\<lparr>members := u1, agent_state := RUNNING\<rparr>
      \<and> OrchestratorLoop_step q =
          (if agent_id a \<noteq> [] \<and> st = IDLE
           then (Some (agent_id a),
                 fold (SendMessage a1) (snd (snd (Execute cls a1)))
                   (q1\<lparr>scheduled_agents := [],
                       agents := fmupd (agent_id a)
                         (a1\<lparr>members := fst (snd (Execute cls a1)),
                             agent_state := (if fst (Execute cls a1) then FAILED else IDLE)\<rparr>,
                          cls)
                         (agents q1)\<rparr>))
           else (None, q1\<lparr>scheduled_agents := []\<rparr>))"
    if "scheduled_agents orch = []"
  proof -
    from ProcessMessageQueue_object [OF regq]
    obtain u1 where g: "GetAgent (ProcessMessageQueue q) (agent_id a) = Some (areg\<lparr>members := u1\<rparr>, cls)"
      by blast
    let ?a1 = "areg\<lparr>members := u1, agent_state := RUNNING\<rparr>"
    let ?q1 = "ProcessMessageQueue q"
    have eq: "OrchestratorLoop_step q =
        (if agent_id a \<noteq> [] \<and> st = IDLE
         then (Some (agent_id a),
               fold (SendMessage ?a1) (snd (snd (Execute cls ?a1)))
                 (?q1\<lparr>scheduled_agents := [],
                     agents := fmupd (agent_id a)
                       (?a1\<lparr>members := fst (snd (Execute cls ?a1)),
                           agent_state := (if fst (Execute cls ?a1) then FAILED else IDLE)\<rparr>,
                        cls)
                       (agents ?q1)\<rparr>))
         else (None, ?q1\<lparr>scheduled_agents := []\<rparr>))"
      using execute_scheduled_result [OF front [OF that] g] st by (simp add: step)
    show ?thesis
      apply (rule exI [of _ u1])
      apply (rule exI [of _ ?a1])
      apply (rule exI [of _ ?q1])
      apply (intro conjI refl g eq)
      done
  qed
  have plain: "GetAgent (snd (OrchestratorLoop_step q)) (agent_id a)
      = Some (areg\<lparr>members := fst (snd (Execute cls (areg\<lparr>agent_state := RUNNING\<rparr>))),
                  agent_state := (if fst (Execute cls (areg\<lparr>agent_state := RUNNING\<rparr>))
                                  then FAILED else IDLE)\<rparr>, cls)"
    if "scheduled_agents orch = []" "message_queue orch = []" "sends = []"
      "agent_id a \<noteq> []" "st = IDLE"
  proof -
    from call fresh init that have "message_queue orch' = []"
      by (auto simp: RegisterAgent_def GetAgent_def Let_def)
    then have pmq: "ProcessMessageQueue q = q"
      by (simp add: ProcessMessageQueue_def q ScheduleAgent_def Start_def)
    have "scheduled_agents q = agent_id a # []"
      using that sched by (simp add: q ScheduleAgent_def Start_def)
    from execute_scheduled_result [OF this regq] that st show ?thesis
      by (simp add: step pmq GetAgent_def fold_SendMessage_fields)
  qed
  from ok reg dup queue dispatch exec plain show ?thesis by blast
qed

theorem RegisterAgent_failed_Initialize_witness:
  "fst (RegisterAgent (Some (test_agent ''agent1'' RefusingAgent))
          (AgentOrchestrator_new 0 :: (nat \<times> AgentMessage list) AgentOrchestrator)) = False
   \<and> GetAgent refused_registered ''agent1''
       = Some (\<lparr>agent_id = ''agent1'', agent_tenant_id = ''tenant1'', agent_state = IDLE,
                orchestrator = Some 0, members = (0, [])\<rparr>, RefusingAgent)
   \<and> RegisterAgent (Some (test_agent ''agent1'' TestAgent)) refused_registered
       = (False, refused_registered)
   \<and> fst (OrchestratorLoop_step (ScheduleAgent ''agent1'' (Start refused_registered)))
       = Some ''agent1''
   \<and> GetAgent (snd (OrchestratorLoop_step (ScheduleAgent ''agent1'' (Start refused_registered))))
         ''agent1''
       = Some (\<lparr>agent_id = ''agent1'', agent_tenant_id = ''tenant1'', agent_state = IDLE,
                orchestrator = Some 0, members = (1, [])\<rparr>, RefusingAgent)"
proof -
  let ?o = "AgentOrchestrator_new 0 :: (nat \<times> AgentMessage list) AgentOrchestrator"
  let ?a = "Agent_new ''agent1'' ''tenant1'' (0 :: nat, [] :: AgentMessage list)"
  have fresh: "GetAgent ?o (agent_id ?a) = None"
    by (simp add: GetAgent_def AgentOrchestrator_new_def Agent_new_def)
  have init: "Initialize RefusingAgent (?a\<lparr>orchestrator := Some (self ?o)\<rparr>) = (False, IDLE, (0, []), [])"
    by (simp add: RefusingAgent_def Agent_new_def)
  have call: "RegisterAgent (Some (?a, RefusingAgent)) ?o = (False, refused_registered)"
    by (simp add: refused_registered_def test_agent_def RegisterAgent_def GetAgent_def
        AgentOrchestrator_new_def Agent_new_def RefusingAgent_def)
  have same: "agent_id (fst (test_agent ''agent1'' TestAgent)) = agent_id ?a"
    by (simp add: test_agent_def Agent_new_def)
  have empty: "scheduled_agents ?o = []" "message_queue ?o = []" "agent_id ?a = ''agent1''"
    by (simp_all add: AgentOrchestrator_new_def Agent_new_def)
  have exec: "Execute RefusingAgent x = (False, (Suc (fst (members x)), snd (members x)), [])" for x
    by (simp add: RefusingAgent_def TestAgent_def)
  from RegisterAgent_failed_Initialize [OF fresh init call refl refl] same empty call
  show ?thesis
    by (simp add: exec test_agent_def Agent_new_def AgentOrchestrator_new_def)
qed

end
